theory Spec2Isabelle
  imports Main "HOL-Library.AList"
begin

section \<open>Platform, values and the shared store\<close>

text \<open>
  The library runs in a browser tab.  The built-ins it calls are not part of the
  repository and are taken as parameters: \<open>atob\<close> (base64 decoding, \<open>None\<close> when it
  throws), \<open>JSON.parse\<close> (\<open>None\<close> when it throws), \<open>JSON.stringify\<close> on a lock
  record, \<open>process.env.NODE_ENV\<close>, and the one method of \<open>Date\<close> that works on
  local-time fields: \<open>setSeconds pf t k\<close> is the time value, in milliseconds, of a
  \<open>Date\<close> with time value \<open>t\<close> after \<open>d.setSeconds(d.getSeconds() + k)\<close> in the time zone of
  the tab, and \<open>None\<close> when that is the Invalid Date.  It is \<open>t + 1000 * k\<close> when the
  offset of the zone is the same at both instants and the result is in the range of
  \<open>Date\<close>; across a change of the offset (daylight saving) it is not.
  A parsed JSON value is either \<open>null\<close>, of which no member can be read, or any other
  value, seen through the members the code reads, each as the number the code uses it
  as: \<open>exp\<close> of a token payload, \<open>timeout\<close> and \<open>Number(timestamp)\<close> of a lock record.
  \<open>None\<close> is a member that is absent or not a number (NaN: every comparison with it is
  false).  Numbers are integers: seconds and milliseconds since the epoch.
\<close>

datatype json =
    JNull
  | JValue (exp: "int option") (timeout: "int option") (timestamp: "int option")

record platform =
  atob :: "string \<Rightarrow> string option"
  JSON_parse :: "string \<Rightarrow> json option"
  JSON_stringify :: "int \<Rightarrow> int \<Rightarrow> string"
  setSeconds :: "int \<Rightarrow> int \<Rightarrow> int option"
  development :: bool

text \<open>Errors the code raises: the two \<open>Error\<close>s of the token manager, the
  \<open>JsonWebTokenError\<close> of \<open>jwt.isExpired\<close>, the \<open>TypeError\<close> of reading a member of
  \<open>undefined\<close>, and whatever the refresh function of the application rejects with.\<close>

datatype error =
    NotInitialized
  | MissingRefresh
  | JsonWebTokenError
  | TypeError
  | AppError string

text \<open>An argument that TypeScript types as \<open>string\<close> and callers may pass as
  \<open>null\<close> or \<open>undefined\<close>.\<close>

datatype arg = AUndefined | ANull | AStr string

fun falsy :: "arg \<Rightarrow> bool" where
  "falsy AUndefined = True"
| "falsy ANull = True"
| "falsy (AStr v) = (v = [])"

fun to_string :: "arg \<Rightarrow> string" where
  "to_string AUndefined = ''undefined''"
| "to_string ANull = ''null''"
| "to_string (AStr v) = v"

text \<open>\<open>localStorage\<close>: string keys and values, in insertion order (\<open>key(i)\<close>).\<close>

type_synonym storage = "(string \<times> string) list"

definition getItem :: "storage \<Rightarrow> string \<Rightarrow> string option" where
  "getItem ls k = map_of ls k"

definition setItem :: "storage \<Rightarrow> string \<Rightarrow> string \<Rightarrow> storage" where
  "setItem ls k v = AList.update k v ls"

definition removeItem :: "storage \<Rightarrow> string \<Rightarrow> storage" where
  "removeItem ls k = AList.delete k ls"

definition key_at :: "storage \<Rightarrow> nat \<Rightarrow> string option" where
  "key_at ls i = (if i < length ls then Some (fst (ls ! i)) else None)"

section \<open>jwt.ts\<close>

record TDecoded =
  header :: json
  payload :: json
  additional :: "string option"

text \<open>\<open>String.prototype.split\<close> on a one-character separator.\<close>

fun split :: "char \<Rightarrow> string \<Rightarrow> string list" where
  "split c [] = [[]]"
| "split c (x # xs) =
     (if x = c then [] # split c xs
      else (case split c xs of
              [] \<Rightarrow> [[x]]
            | y # ys \<Rightarrow> (x # y) # ys))"

text \<open>\<open>jwt.decodeOnly\<close>: every exception inside is caught and turned into \<open>null\<close>.\<close>

definition decodeOnly :: "platform \<Rightarrow> string \<Rightarrow> TDecoded option" where
  "decodeOnly pf token =
    (let arr = split (CHR ''.'') token in
     if length arr < 2 then None
     else
       let headerPart =
             (if CHR '' '' \<in> set (arr ! 0) then split (CHR '' '') (arr ! 0) ! 1 else arr ! 0)
       in case atob pf headerPart of
            None \<Rightarrow> None
          | Some h \<Rightarrow>
              (case JSON_parse pf h of
                 None \<Rightarrow> None
               | Some hj \<Rightarrow>
                   (case atob pf (arr ! 1) of
                      None \<Rightarrow> None
                    | Some p \<Rightarrow>
                        (case JSON_parse pf p of
                           None \<Rightarrow> None
                         | Some pj \<Rightarrow>
                             Some \<lparr>header = hj, payload = pj,
                                   additional = (if 3 < length arr then Some (arr ! 3) else None)\<rparr>))))"

text \<open>The \<open>timeSkew\<close> argument of \<open>jwt.isExpired\<close>: \<open>number | null\<close>, with the default
  15 when it is \<open>undefined\<close>.\<close>

datatype skew = SkewUndefined | SkewNull | SkewNum int


section \<open>Promises and the state of one tab\<close>

text \<open>\<open>TSetToken\<close>: what the refresh function of the application resolves with.\<close>

record TSetToken =
  accessToken :: "string option"
  refreshToken :: "string option"

datatype val = VUndefined | VNull | VNum int | VStr string | VTokens TSetToken

datatype outcome = Pending | Fulfilled val | Rejected error

text \<open>A call of the application's refresh function either throws, or returns a promise
  (already settled, or \<open>Pending\<close>: the network settles it later).\<close>

datatype collab = Throws error | Returns outcome

text \<open>\<open>TConfig\<close>.  The \<open>onChange\<close> callback is the application's; the model records
  whether one is configured and logs each call.  \<open>mock\<close> is never read.\<close>

record TConfig =
  refresh :: "(string \<Rightarrow> collab) option"
  onChange :: bool
  timeSkew :: skew

text \<open>The points at which an \<open>async\<close> function of the library is suspended, each with
  the promise it will settle when it ends:
  the anonymous function of \<open>Token.refresh\<close> at \<open>await lock.block(10_000)\<close> (with the
  refresh token it loaded) and at \<open>await config.refresh!(refreshToken)\<close>;
  \<open>Token.read\<close> at \<open>await Token.refresh()\<close>;
  and a promise that was resolved with another promise and takes its outcome.\<close>

datatype cont =
    IifeAfterBlock string nat
  | IifeAfterRefresh nat
  | ReadAfterRefresh nat
  | Adopt nat

text \<open>A microtask: resume a suspended function with the outcome of the promise it awaited,
  or subscribe a promise to the promise it was resolved with.\<close>

datatype job = Resume cont outcome | ResolveThenable nat nat

text \<open>A caller waiting inside \<open>block\<close>: the promise built by \<open>new Promise\<close>, with the
  instant its timer is due.  The entry stands for both the armed timer and the registered
  \<open>storage\<close> listener; \<open>cleanup\<close> removes both.\<close>

record wait =
  w_promise :: nat
  w_due :: int

text \<open>One tab: the module variables of token.ts, the shared \<open>localStorage\<close>, the clock,
  the promises by number, the reactions waiting on pending promises, the microtask queue,
  the waiting \<open>block\<close> calls, the promises the refresh function returned (the only ones
  settled from outside), and two logs: the arguments \<open>onChange\<close> was called with and the
  arguments the refresh function was called with.\<close>

record tab =
  config :: "TConfig option"
  lastAccessToken :: string
  lastAccessTokenDecoded :: "TDecoded option"
  refreshPromise :: "nat option"
  localStorage :: storage
  now :: int
  promises :: "outcome list"
  reactions :: "(nat \<times> cont) list"
  microtasks :: "job list"
  waits :: "wait list"
  external :: "nat list"
  changes :: "TDecoded option list"
  refreshCalls :: "string list"

text \<open>The module as loaded: \<open>let config\<close>, \<open>lastAccessToken = ''\<close>,
  \<open>lastAccessTokenDecoded\<close> unset, \<open>refreshPromise = null\<close>.\<close>

definition init :: "storage \<Rightarrow> int \<Rightarrow> tab" where
  "init ls t =
    \<lparr>config = None, lastAccessToken = [], lastAccessTokenDecoded = None,
     refreshPromise = None, localStorage = ls, now = t, promises = [],
     reactions = [], microtasks = [], waits = [], external = [], changes = [],
     refreshCalls = []\<rparr>"

definition new_promise :: "outcome \<Rightarrow> tab \<Rightarrow> nat \<times> tab" where
  "new_promise out s = (length (promises s), s\<lparr>promises := promises s @ [out]\<rparr>)"

definition state_of :: "tab \<Rightarrow> nat \<Rightarrow> outcome" where
  "state_of s p = (if p < length (promises s) then promises s ! p else Pending)"

text \<open>Settling a pending promise queues the reactions registered on it, in order;
  settling a settled promise does nothing.\<close>

definition settle :: "nat \<Rightarrow> outcome \<Rightarrow> tab \<Rightarrow> tab" where
  "settle p out s =
    (if p < length (promises s) \<and> promises s ! p = Pending \<and> out \<noteq> Pending then
       s\<lparr>promises := (promises s)[p := out],
         microtasks := microtasks s @ map (\<lambda>r. Resume (snd r) out) (filter (\<lambda>r. fst r = p) (reactions s)),
         reactions := filter (\<lambda>r. fst r \<noteq> p) (reactions s)\<rparr>
     else s)"

text \<open>\<open>await p\<close> (and \<open>p.then\<close>): the continuation is queued at once when \<open>p\<close> is
  settled, and registered on \<open>p\<close> otherwise.\<close>

definition await_on :: "nat \<Rightarrow> cont \<Rightarrow> tab \<Rightarrow> tab" where
  "await_on p k s =
    (case state_of s p of
       Pending \<Rightarrow> s\<lparr>reactions := reactions s @ [(p, k)]\<rparr>
     | out \<Rightarrow> s\<lparr>microtasks := microtasks s @ [Resume k out]\<rparr>)"

section \<open>locker.ts\<close>

definition lock_key :: "string \<Rightarrow> string" where
  "lock_key k = ''__locker__.'' @ k"

definition isLocked :: "string \<Rightarrow> tab \<Rightarrow> bool" where
  "isLocked k s = (getItem (localStorage s) (lock_key k) \<noteq> None)"

definition setIsLocked :: "platform \<Rightarrow> string \<Rightarrow> int \<Rightarrow> tab \<Rightarrow> tab" where
  "setIsLocked pf k timeoutMs s =
    (if 0 < timeoutMs then
       s\<lparr>localStorage := setItem (localStorage s) (lock_key k) (JSON_stringify pf timeoutMs (now s))\<rparr>
     else s\<lparr>localStorage := removeItem (localStorage s) (lock_key k)\<rparr>)"

text \<open>\<open>setTimeout\<close> converts its delay to a signed 32-bit integer, modulo \<open>2^32\<close>, and
  takes a negative delay as 0.\<close>

definition timer_delay :: "int \<Rightarrow> int" where
  "timer_delay ms =
    (let w = ms mod 4294967296;
         d = (if 2147483648 \<le> w then w - 4294967296 else w)
     in if d < 0 then 0 else d)"

text \<open>\<open>block\<close> is an \<open>async\<close> function: the call returns a promise.  With no record under
  the key it writes one and the promise is fulfilled with 0.  Otherwise it builds a new
  promise, arms the timer and registers the listener, and its own promise is resolved with
  that promise (a microtask subscribes it).\<close>

definition block :: "platform \<Rightarrow> string \<Rightarrow> int \<Rightarrow> tab \<Rightarrow> nat \<times> tab" where
  "block pf k timeoutMs s =
    (if \<not> isLocked k s then new_promise (Fulfilled (VNum 0)) (setIsLocked pf k timeoutMs s)
     else
       let (pw, s1) = new_promise Pending s;
           s2 = s1\<lparr>waits := waits s1 @ [\<lparr>w_promise = pw, w_due = now s1 + timer_delay timeoutMs\<rparr>]\<rparr>;
           (pb, s3) = new_promise Pending s2
       in (pb, s3\<lparr>microtasks := microtasks s3 @ [ResolveThenable pw pb]\<rparr>))"

definition release :: "platform \<Rightarrow> string \<Rightarrow> tab \<Rightarrow> tab" where
  "release pf k s = setIsLocked pf k 0 s"

text \<open>\<open>cleanup\<close>: \<open>clearTimeout(timer)\<close> and \<open>removeEventListener('storage', onStorage)\<close>.\<close>

definition cleanup :: "wait \<Rightarrow> tab \<Rightarrow> tab" where
  "cleanup w s = s\<lparr>waits := filter (\<lambda>v. w_promise v \<noteq> w_promise w) (waits s)\<rparr>"

text \<open>The timer callback of a waiting call.\<close>

definition onTimeout :: "wait \<Rightarrow> tab \<Rightarrow> tab" where
  "onTimeout w s = settle (w_promise w) (Fulfilled (VNum 2)) (cleanup w s)"

text \<open>The \<open>storage\<close> listener of a waiting call, given \<open>e.key\<close> and \<open>e.newValue\<close>.\<close>

definition onStorage :: "string \<Rightarrow> string option \<Rightarrow> wait \<Rightarrow> tab \<Rightarrow> tab" where
  "onStorage ekey newValue w s =
    (if ekey = ''token-locked'' \<and> newValue = None then
       settle (w_promise w) (Fulfilled (VNum 1)) (cleanup w s)
     else s)"

text \<open>The loop that runs when the module is loaded, from the last index down: a key that
  starts with \<open>__locker__\<close> is removed when its value does not parse or cannot be
  destructured (\<open>null\<close>), or when \<open>Date.now() > Number(timestamp) + timeout\<close>.\<close>

definition startsWith :: "string \<Rightarrow> string \<Rightarrow> bool" where
  "startsWith k pre = (take (length pre) k = pre)"

definition expired_record :: "platform \<Rightarrow> int \<Rightarrow> string \<Rightarrow> bool" where
  "expired_record pf t v =
    (case JSON_parse pf v of
       None \<Rightarrow> True
     | Some JNull \<Rightarrow> True
     | Some (JValue e tm ts) \<Rightarrow>
         (case (ts, tm) of
            (Some a, Some b) \<Rightarrow> a + b < t
          | _ \<Rightarrow> False))"

definition sweep_step :: "platform \<Rightarrow> nat \<Rightarrow> tab \<Rightarrow> tab" where
  "sweep_step pf i s =
    (case key_at (localStorage s) i of
       None \<Rightarrow> s
     | Some k \<Rightarrow>
         if k = [] \<or> \<not> startsWith k ''__locker__'' then s
         else (case getItem (localStorage s) k of
                 None \<Rightarrow> s\<lparr>localStorage := removeItem (localStorage s) k\<rparr>
               | Some v \<Rightarrow>
                   if expired_record pf (now s) v
                   then s\<lparr>localStorage := removeItem (localStorage s) k\<rparr>
                   else s))"

fun sweep_from :: "platform \<Rightarrow> nat \<Rightarrow> tab \<Rightarrow> tab" where
  "sweep_from pf 0 s = s"
| "sweep_from pf (Suc i) s = sweep_from pf i (sweep_step pf i s)"

definition sweep :: "platform \<Rightarrow> tab \<Rightarrow> tab" where
  "sweep pf s = sweep_from pf (length (localStorage s)) s"


section \<open>jwt.isExpired\<close>

text \<open>\<open>new Date(ms)\<close>: the time value is \<open>ms\<close> within 8.64e15 milliseconds of the epoch,
  and the Invalid Date (\<open>None\<close>) beyond.\<close>

definition TimeClip :: "int \<Rightarrow> int option" where
  "TimeClip ms =
    (if - 8640000000000000 \<le> ms \<and> ms \<le> 8640000000000000 then Some ms else None)"

text \<open>\<open>exp <= 0\<close> is false for an absent \<open>exp\<close> (\<open>undefined\<close>).  The skew is added by
  \<open>now.setSeconds(now.getSeconds() + (timeSkew ?? 0))\<close>.  In development, a truthy
  \<open>jwtExpired\<close> entry of the store forces the answer and is removed.  The last line,
  \<open>now >= new Date(exp * 1000)\<close>, is false when either side is the Invalid Date, as it is
  for an absent \<open>exp\<close>.\<close>

definition isExpired :: "platform \<Rightarrow> int option \<Rightarrow> skew \<Rightarrow> tab \<Rightarrow> (error + bool) \<times> tab" where
  "isExpired pf e sk s =
    (let sk1 = (case sk of SkewUndefined \<Rightarrow> SkewNum 15 | _ \<Rightarrow> sk) in
     if (case e of None \<Rightarrow> False | Some n \<Rightarrow> n \<le> 0) then (Inl JsonWebTokenError, s)
     else
       let t = setSeconds pf (now s) (case sk1 of SkewNum n \<Rightarrow> n | _ \<Rightarrow> 0) in
       if development pf \<and>
          (case getItem (localStorage s) ''jwtExpired'' of None \<Rightarrow> False | Some v \<Rightarrow> v \<noteq> [])
       then (Inr True, s\<lparr>localStorage := removeItem (localStorage s) ''jwtExpired''\<rparr>)
       else (Inr (case e of
                    None \<Rightarrow> False
                  | Some n \<Rightarrow>
                      (case (t, TimeClip (n * 1000)) of
                         (Some a, Some b) \<Rightarrow> b \<le> a
                       | _ \<Rightarrow> False)), s))"

text \<open>\<open>jwt.isExpired(decoded.payload.exp, timeSkew)\<close>, as token.ts calls it: reading
  \<open>exp\<close> of a payload that is \<open>null\<close> is a \<open>TypeError\<close>.\<close>

definition isExpired_exp :: "platform \<Rightarrow> json \<Rightarrow> skew \<Rightarrow> tab \<Rightarrow> (error + bool) \<times> tab" where
  "isExpired_exp pf j sk s =
    (case j of
       JNull \<Rightarrow> (Inl TypeError, s)
     | JValue e tm ts \<Rightarrow> isExpired pf e sk s)"

section \<open>token.ts\<close>

record loaded =
  ld_accessToken :: string
  ld_refreshToken :: string
  ld_accessTokenDecoded :: "TDecoded option"

definition load :: "platform \<Rightarrow> tab \<Rightarrow> loaded \<times> tab" where
  "load pf s =
    (let a = (case getItem (localStorage s) ''accessToken'' of None \<Rightarrow> [] | Some v \<Rightarrow> v);
         r = (case getItem (localStorage s) ''refreshToken'' of None \<Rightarrow> [] | Some v \<Rightarrow> v);
         d = (if lastAccessToken s \<noteq> a then decodeOnly pf a else lastAccessTokenDecoded s)
     in (\<lparr>ld_accessToken = a, ld_refreshToken = r, ld_accessTokenDecoded = d\<rparr>,
         s\<lparr>lastAccessTokenDecoded := d, lastAccessToken := a\<rparr>))"

text \<open>\<open>config.onChange?.(d)\<close> on a configuration that exists.\<close>

definition notify :: "TConfig \<Rightarrow> TDecoded option \<Rightarrow> tab \<Rightarrow> tab" where
  "notify cfg d s = (if onChange cfg then s\<lparr>changes := changes s @ [d]\<rparr> else s)"

text \<open>\<open>Token.clear\<close>.  Its last statement reads \<open>config.onChange\<close>: with \<open>config\<close> still
  \<open>undefined\<close> that is a \<open>TypeError\<close>, raised after the store was changed.\<close>

definition Token_clear :: "tab \<Rightarrow> (error + unit) \<times> tab" where
  "Token_clear s =
    (let s1 = s\<lparr>lastAccessToken := [], lastAccessTokenDecoded := None\<rparr>;
         s2 = s1\<lparr>localStorage := removeItem (localStorage s1) ''accessToken''\<rparr>;
         s3 = s2\<lparr>localStorage := removeItem (localStorage s2) ''refreshToken''\<rparr>
     in case config s3 of
          None \<Rightarrow> (Inl TypeError, s3)
        | Some cfg \<Rightarrow> (Inr (), notify cfg None s3))"

definition Token_write :: "platform \<Rightarrow> arg \<Rightarrow> arg \<Rightarrow> tab \<Rightarrow> (error + unit) \<times> tab" where
  "Token_write pf newAccessToken newRefreshToken s =
    (case config s of
       None \<Rightarrow> (Inl NotInitialized, s)
     | Some cfg \<Rightarrow>
         if falsy newAccessToken then Token_clear s
         else
           let s1 = s\<lparr>localStorage := setItem (localStorage s) ''accessToken'' (to_string newAccessToken)\<rparr>;
               s2 = s1\<lparr>localStorage := setItem (localStorage s1) ''refreshToken'' (to_string newRefreshToken)\<rparr>;
               (l, s3) = load pf s2
           in (Inr (), notify cfg (ld_accessTokenDecoded l) s3))"

definition isConfigured :: "tab \<Rightarrow> bool" where
  "isConfigured s = (config s \<noteq> None)"

text \<open>\<open>Token.isLoggedIn\<close> passes \<open>config?.timeSkew ?? DEFAULT_TIME_SKEW\<close>.\<close>

definition isLoggedIn :: "platform \<Rightarrow> tab \<Rightarrow> (error + bool) \<times> tab" where
  "isLoggedIn pf s =
    (case config s of
       None \<Rightarrow> (Inr False, s)
     | Some cfg \<Rightarrow>
         let (l, s1) = load pf s in
         case ld_accessTokenDecoded l of
           None \<Rightarrow> (Inr False, s1)
         | Some d \<Rightarrow>
             (case isExpired_exp pf (payload d)
                     (case timeSkew cfg of SkewNum n \<Rightarrow> SkewNum n | _ \<Rightarrow> SkewNum 15) s1 of
                (Inl err, s2) \<Rightarrow> (Inl err, s2)
              | (Inr b, s2) \<Rightarrow> (Inr (\<not> b), s2)))"

text \<open>The \<open>catch\<close> and \<open>finally\<close> blocks of the anonymous function of \<open>Token.refresh\<close>:
  \<open>Token.clear(); throw err\<close>, then \<open>lock.release()\<close>, and the promise is rejected.\<close>

definition on_catch :: "platform \<Rightarrow> error \<Rightarrow> nat \<Rightarrow> tab \<Rightarrow> tab" where
  "on_catch pf err pi s =
    (let (r, s1) = Token_clear s;
         s2 = release pf ''refresh-token'' s1
     in settle pi (Rejected (case r of Inl err1 \<Rightarrow> err1 | Inr u \<Rightarrow> err)) s2)"

text \<open>The anonymous function resumed after \<open>await lock.block(10_000)\<close>: inside \<open>try\<close> it
  calls \<open>config.refresh!(refreshToken)\<close> and awaits what that returns.\<close>

definition iife_after_block :: "platform \<Rightarrow> string \<Rightarrow> nat \<Rightarrow> outcome \<Rightarrow> tab \<Rightarrow> tab" where
  "iife_after_block pf rt pi out s =
    (case out of
       Pending \<Rightarrow> s
     | Rejected err \<Rightarrow> settle pi (Rejected err) s
     | Fulfilled v \<Rightarrow>
         (case config s of
            None \<Rightarrow> on_catch pf TypeError pi s
          | Some cfg \<Rightarrow>
              (case refresh cfg of
                 None \<Rightarrow> on_catch pf TypeError pi s
               | Some f \<Rightarrow>
                   let s1 = s\<lparr>refreshCalls := refreshCalls s @ [rt]\<rparr> in
                   case f rt of
                     Throws err \<Rightarrow> on_catch pf err pi s1
                   | Returns o1 \<Rightarrow>
                       let (pr, s2) = new_promise o1 s1
                       in await_on pr (IifeAfterRefresh pi) (s2\<lparr>external := external s2 @ [pr]\<rparr>))))"

text \<open>What \<open>result.accessToken\<close> and \<open>result.refreshToken\<close> read from the value the
  refresh function resolved with.\<close>

fun tokens_of :: "val \<Rightarrow> error + TSetToken" where
  "tokens_of (VTokens t) = Inr t"
| "tokens_of VUndefined = Inl TypeError"
| "tokens_of VNull = Inl TypeError"
| "tokens_of v = Inr \<lparr>accessToken = None, refreshToken = None\<rparr>"

definition or_empty :: "string option \<Rightarrow> arg" where
  "or_empty v = (case v of None \<Rightarrow> AStr [] | Some x \<Rightarrow> AStr x)"

text \<open>The anonymous function resumed after \<open>await config.refresh!(refreshToken)\<close>:
  \<open>this.write(result.accessToken ?? '', result.refreshToken ?? ''); return result\<close>,
  with \<open>finally\<close> releasing the lock before the promise is fulfilled.\<close>

definition iife_after_refresh :: "platform \<Rightarrow> nat \<Rightarrow> outcome \<Rightarrow> tab \<Rightarrow> tab" where
  "iife_after_refresh pf pi out s =
    (case out of
       Pending \<Rightarrow> s
     | Rejected err \<Rightarrow> on_catch pf err pi s
     | Fulfilled v \<Rightarrow>
         (case tokens_of v of
            Inl err \<Rightarrow> on_catch pf err pi s
          | Inr t \<Rightarrow>
              (case Token_write pf (or_empty (accessToken t)) (or_empty (refreshToken t)) s of
                 (Inl err, s1) \<Rightarrow> on_catch pf err pi s1
               | (Inr u, s1) \<Rightarrow>
                   settle pi (Fulfilled v) (release pf ''refresh-token'' s1))))"

text \<open>The anonymous \<open>async\<close> function of \<open>Token.refresh\<close>, run up to its first \<open>await\<close>;
  the result is its promise.\<close>

definition iife :: "platform \<Rightarrow> tab \<Rightarrow> nat \<times> tab" where
  "iife pf s =
    (let (l, s1) = load pf s in
     if ld_refreshToken l = [] then
       (case Token_clear s1 of
          (Inl err, s2) \<Rightarrow> new_promise (Rejected err) s2
        | (Inr u, s2) \<Rightarrow> new_promise (Fulfilled VUndefined) s2)
     else
       let (pb, s2) = block pf ''refresh-token'' 10000 s1;
           (pi, s3) = new_promise Pending s2
       in (pi, await_on pb (IifeAfterBlock (ld_refreshToken l) pi) s3))"

text \<open>\<open>Token.refresh\<close>, an \<open>async\<close> function: the call returns a promise.
  \<open>return refreshPromise\<close> resolves that promise with the stored one.  On the other path
  the function assigns \<open>refreshPromise\<close> and ends without a \<open>return\<close>: its promise is
  fulfilled with \<open>undefined\<close>.  No statement of the module assigns \<open>refreshPromise\<close>
  again.\<close>

definition Token_refresh :: "platform \<Rightarrow> tab \<Rightarrow> nat \<times> tab" where
  "Token_refresh pf s =
    (case config s of
       None \<Rightarrow> new_promise (Rejected NotInitialized) s
     | Some cfg \<Rightarrow>
         (case refreshPromise s of
            Some rp \<Rightarrow>
              let (pc, s1) = new_promise Pending s
              in (pc, s1\<lparr>microtasks := microtasks s1 @ [ResolveThenable rp pc]\<rparr>)
          | None \<Rightarrow>
              let (pi, s1) = iife pf s;
                  s2 = s1\<lparr>refreshPromise := Some pi\<rparr>
              in new_promise (Fulfilled VUndefined) s2))"

text \<open>\<open>Token.read\<close>, an \<open>async\<close> function.  It passes \<open>config.timeSkew\<close> as it is.\<close>

definition Token_read :: "platform \<Rightarrow> tab \<Rightarrow> nat \<times> tab" where
  "Token_read pf s =
    (case config s of
       None \<Rightarrow> new_promise (Rejected NotInitialized) s
     | Some cfg \<Rightarrow>
         let (l, s1) = load pf s in
         case ld_accessTokenDecoded l of
           None \<Rightarrow> new_promise (Fulfilled VNull) s1
         | Some d \<Rightarrow>
             (case isExpired_exp pf (payload d) (timeSkew cfg) s1 of
                (Inl err, s2) \<Rightarrow> new_promise (Rejected err) s2
              | (Inr False, s2) \<Rightarrow> new_promise (Fulfilled (VStr (ld_accessToken l))) s2
              | (Inr True, s2) \<Rightarrow>
                  let (pc, s3) = Token_refresh pf s2;
                      (pr, s4) = new_promise Pending s3
                  in (pr, await_on pc (ReadAfterRefresh pr) s4)))"

text \<open>\<open>Token.read\<close> resumed after \<open>await Token.refresh()\<close>: \<open>return load().accessToken\<close>,
  or the rejection it awaited.\<close>

definition read_after_refresh :: "platform \<Rightarrow> nat \<Rightarrow> outcome \<Rightarrow> tab \<Rightarrow> tab" where
  "read_after_refresh pf pr out s =
    (case out of
       Pending \<Rightarrow> s
     | Rejected err \<Rightarrow> settle pr (Rejected err) s
     | Fulfilled v \<Rightarrow>
         let (l, s1) = load pf s
         in settle pr (Fulfilled (VStr (ld_accessToken l))) s1)"

text \<open>\<open>Token.configure\<close>; \<open>{ timeSkew: DEFAULT_TIME_SKEW, ...options }\<close> keeps a
  \<open>timeSkew\<close> the options give.\<close>

definition configure :: "platform \<Rightarrow> TConfig \<Rightarrow> tab \<Rightarrow> (error + unit) \<times> tab" where
  "configure pf options s =
    (case refresh options of
       None \<Rightarrow> (Inl MissingRefresh, s)
     | Some f \<Rightarrow>
         let cfg = options\<lparr>timeSkew :=
                     (case timeSkew options of SkewUndefined \<Rightarrow> SkewNum 15 | sk \<Rightarrow> sk)\<rparr>;
             s1 = s\<lparr>config := Some cfg\<rparr>;
             (l, s2) = load pf s1
         in case ld_accessTokenDecoded l of
              None \<Rightarrow> Token_write pf (AStr (ld_accessToken l)) (AStr (ld_refreshToken l)) s2
            | Some d \<Rightarrow>
                (case isExpired_exp pf (payload d) (timeSkew cfg) s2 of
                   (Inl err, s3) \<Rightarrow> (Inl err, s3)
                 | (Inr True, s3) \<Rightarrow> (Inr (), snd (Token_refresh pf s3))
                 | (Inr False, s3) \<Rightarrow>
                     Token_write pf (AStr (ld_accessToken l)) (AStr (ld_refreshToken l)) s3))"

section \<open>The event loop of a tab\<close>

definition run_job :: "platform \<Rightarrow> job \<Rightarrow> tab \<Rightarrow> tab" where
  "run_job pf j s =
    (case j of
       ResolveThenable src dst \<Rightarrow> await_on src (Adopt dst) s
     | Resume (Adopt dst) out \<Rightarrow> settle dst out s
     | Resume (IifeAfterBlock rt pi) out \<Rightarrow> iife_after_block pf rt pi out s
     | Resume (IifeAfterRefresh pi) out \<Rightarrow> iife_after_refresh pf pi out s
     | Resume (ReadAfterRefresh pr) out \<Rightarrow> read_after_refresh pf pr out s)"

text \<open>Run the first microtask of the queue.\<close>

definition microtask :: "platform \<Rightarrow> tab \<Rightarrow> tab" where
  "microtask pf s =
    (case microtasks s of
       [] \<Rightarrow> s
     | j # js \<Rightarrow> run_job pf j (s\<lparr>microtasks := js\<rparr>))"

text \<open>Run microtasks until the queue is empty, at most \<open>n\<close> of them.\<close>

fun drain :: "platform \<Rightarrow> nat \<Rightarrow> tab \<Rightarrow> tab" where
  "drain pf 0 s = s"
| "drain pf (Suc n) s = (if microtasks s = [] then s else drain pf n (microtask pf s))"

text \<open>What happens to a tab from outside: another tab sets or removes a key of the shared
  store (the store changes, and this tab's \<open>storage\<close> listeners are called when the value
  changed); the timer of a waiting \<open>block\<close> call fires once it is due; a pending promise
  returned by the refresh function settles; time passes; a microtask runs.  The browser
  runs every queued microtask before the next event: \<open>drain\<close>.\<close>

datatype event =
    OtherSet string string
  | OtherRemove string
  | TimerFires nat
  | Settles nat outcome
  | Advance nat
  | Microtask

definition deliver :: "string \<Rightarrow> string option \<Rightarrow> tab \<Rightarrow> tab" where
  "deliver ekey newValue s = fold (onStorage ekey newValue) (waits s) s"

definition step :: "platform \<Rightarrow> event \<Rightarrow> tab \<Rightarrow> tab" where
  "step pf ev s =
    (case ev of
       OtherSet k v \<Rightarrow>
         if getItem (localStorage s) k = Some v then s
         else deliver k (Some v) (s\<lparr>localStorage := setItem (localStorage s) k v\<rparr>)
     | OtherRemove k \<Rightarrow>
         if getItem (localStorage s) k = None then s
         else deliver k None (s\<lparr>localStorage := removeItem (localStorage s) k\<rparr>)
     | TimerFires p \<Rightarrow>
         (case filter (\<lambda>w. w_promise w = p \<and> w_due w \<le> now s) (waits s) of
            [] \<Rightarrow> s
          | w # ws \<Rightarrow> onTimeout w s)
     | Settles p out \<Rightarrow> if p \<in> set (external s) then settle p out s else s
     | Advance d \<Rightarrow> s\<lparr>now := now s + int d\<rparr>
     | Microtask \<Rightarrow> microtask pf s)"

fun run :: "platform \<Rightarrow> event list \<Rightarrow> tab \<Rightarrow> tab" where
  "run pf [] s = s"
| "run pf (ev # evs) s = run pf evs (step pf ev s)"


section \<open>Invariants and auxiliary notions\<close>

text \<open>The decode cache of \<open>load\<close> is coherent: the cached claim set is the decoding of
  the cached string.\<close>

definition cache_ok :: "platform \<Rightarrow> tab \<Rightarrow> bool" where
  "cache_ok pf s = (lastAccessTokenDecoded s = decodeOnly pf (lastAccessToken s))"

text \<open>The development switch of \<open>jwt.isExpired\<close> is on and armed.\<close>

definition forced :: "platform \<Rightarrow> tab \<Rightarrow> bool" where
  "forced pf s =
    (development pf \<and>
     (case getItem (localStorage s) ''jwtExpired'' of None \<Rightarrow> False | Some v \<Rightarrow> v \<noteq> []))"

text \<open>The skew \<open>isLoggedIn\<close> passes: \<open>config?.timeSkew ?? DEFAULT_TIME_SKEW\<close>.\<close>

definition skew_of :: "TConfig \<Rightarrow> int" where
  "skew_of cfg = (case timeSkew cfg of SkewNum k \<Rightarrow> k | _ \<Rightarrow> 15)"

text \<open>The stored access token as \<open>load\<close> reads it.\<close>

definition stored_access :: "tab \<Rightarrow> string" where
  "stored_access s = (case getItem (localStorage s) ''accessToken'' of None \<Rightarrow> [] | Some v \<Rightarrow> v)"

text \<open>What the events of a run write to the shared store by themselves: the writes of
  the other tabs.\<close>

fun others_write :: "storage \<Rightarrow> event \<Rightarrow> storage" where
  "others_write ls (OtherSet k v) = (if getItem ls k = Some v then ls else setItem ls k v)"
| "others_write ls (OtherRemove k) = (if getItem ls k = None then ls else removeItem ls k)"
| "others_write ls ev = ls"

text \<open>A tab in which no function of token.ts is suspended: every queued microtask and
  every registered reaction only passes the outcome of one promise on to another.\<close>

fun passes_on :: "cont \<Rightarrow> bool" where
  "passes_on (Adopt p) = True"
| "passes_on k = False"

fun job_passes_on :: "job \<Rightarrow> bool" where
  "job_passes_on (ResolveThenable p q) = True"
| "job_passes_on (Resume k out) = passes_on k"

definition lock_only :: "tab \<Rightarrow> bool" where
  "lock_only s = (list_all job_passes_on (microtasks s) \<and> list_all (\<lambda>r. passes_on (snd r)) (reactions s))"

text \<open>The continuation that is about to call the refresh function, and the count of
  renewals of a tab: the calls of the refresh function made so far, plus the anonymous
  functions of \<open>Token.refresh\<close> that are waiting for the lock and will make one.\<close>

fun starts_call :: "cont \<Rightarrow> bool" where
  "starts_call (IifeAfterBlock rt p) = True"
| "starts_call k = False"

fun job_starts_call :: "job \<Rightarrow> bool" where
  "job_starts_call (Resume k out) = starts_call k"
| "job_starts_call (ResolveThenable p q) = False"

definition renewals :: "tab \<Rightarrow> nat" where
  "renewals s =
    length (refreshCalls s) + length (filter job_starts_call (microtasks s))
      + length (filter (\<lambda>r. starts_call (snd r)) (reactions s))"

text \<open>At most one renewal, and none before \<open>refreshPromise\<close> is assigned.\<close>

definition single_flight :: "tab \<Rightarrow> bool" where
  "single_flight s = (renewals s \<le> (case refreshPromise s of None \<Rightarrow> 0 | Some p \<Rightarrow> 1))"

text \<open>What the application can do to a tab, besides the events that reach it: the calls
  of the interface of token.ts and locker.ts.\<close>

datatype action =
    Configure TConfig
  | Write arg arg
  | Clear
  | IsLoggedIn
  | Read
  | Refresh
  | Block string int
  | Release string
  | Event event

definition act :: "platform \<Rightarrow> action \<Rightarrow> tab \<Rightarrow> tab" where
  "act pf a s =
    (case a of
       Configure options \<Rightarrow> snd (configure pf options s)
     | Write x y \<Rightarrow> snd (Token_write pf x y s)
     | Clear \<Rightarrow> snd (Token_clear s)
     | IsLoggedIn \<Rightarrow> snd (isLoggedIn pf s)
     | Read \<Rightarrow> snd (Token_read pf s)
     | Refresh \<Rightarrow> snd (Token_refresh pf s)
     | Block k t \<Rightarrow> snd (block pf k t s)
     | Release k \<Rightarrow> release pf k s
     | Event ev \<Rightarrow> step pf ev s)"

fun acts :: "platform \<Rightarrow> action list \<Rightarrow> tab \<Rightarrow> tab" where
  "acts pf [] s = s"
| "acts pf (a # as) s = acts pf as (act pf a s)"

text \<open>An entry of the store that the loop at module load removes.\<close>

definition swept :: "platform \<Rightarrow> int \<Rightarrow> string \<times> string \<Rightarrow> bool" where
  "swept pf t e =
    (fst e \<noteq> [] \<and> startsWith (fst e) ''__locker__'' \<and> expired_record pf t (snd e))"

section \<open>Worked examples: a platform and tokens\<close>

fun show_nat :: "nat \<Rightarrow> string" where
  "show_nat n =
    (if n < 10 then [''0123456789'' ! n]
     else show_nat (n div 10) @ [''0123456789'' ! (n mod 10)])"

declare show_nat.simps [simp del]

definition show_int :: "int \<Rightarrow> string" where
  "show_int i = (if i < 0 then CHR ''-'' # show_nat (nat (- i)) else show_nat (nat i))"

text \<open>The built-ins on the strings of the examples: base64 of the header
  \<open>{"alg":"none"}\<close> and of payloads with \<open>exp\<close> 1700000000, 1700003600, 0 and none,
  and a lock record written at 1699999000000 with a timeout of 10000.  The tab is in a
  zone whose offset never changes (UTC), so \<open>setSeconds\<close> adds the seconds as they are.\<close>

definition example_platform :: platform where
  \<open>example_platform =
    \<lparr>atob = map_of
       [(''eyJhbGciOiJub25lIn0='', ''{"alg":"none"}''),
        (''eyJleHAiOjE3MDAwMDAwMDB9'', ''{"exp":1700000000}''),
        (''eyJleHAiOjE3MDAwMDM2MDB9'', ''{"exp":1700003600}''),
        (''eyJleHAiOjB9'', ''{"exp":0}''),
        (''e30='', ''{}'')],
     JSON_parse = map_of
       [(''{"alg":"none"}'', (JValue None None None)),
        (''{"exp":1700000000}'', (JValue (Some 1700000000) None None)),
        (''{"exp":1700003600}'', (JValue (Some 1700003600) None None)),
        (''{"exp":0}'', (JValue (Some 0) None None)),
        (''{}'', (JValue None None None)),
        (''{"timeout":10000,"timestamp":"1699999000000"}'',
           (JValue None (Some 10000) (Some 1699999000000)))],
     JSON_stringify =
       (\<lambda>tm ts. ''{"timeout":'' @ show_int tm @ '',"timestamp":"'' @ show_int ts @ ''"}''),
     setSeconds = (\<lambda>t k. TimeClip (t + 1000 * k)),
     development = False\<rparr>\<close>

definition tokenA1 :: string where
  "tokenA1 = ''eyJhbGciOiJub25lIn0=.eyJleHAiOjE3MDAwMDAwMDB9.c2lnbmF0dXJl''"

definition tokenA2 :: string where
  "tokenA2 = ''eyJhbGciOiJub25lIn0=.eyJleHAiOjE3MDAwMDM2MDB9.c2lnbmF0dXJl''"

definition tokenExp0 :: string where
  "tokenExp0 = ''eyJhbGciOiJub25lIn0=.eyJleHAiOjB9.c2lnbmF0dXJl''"

definition tokenNoExp :: string where
  "tokenNoExp = ''eyJhbGciOiJub25lIn0=.e30=.c2lnbmF0dXJl''"

definition lockRecord :: string where
  \<open>lockRecord = ''{"timeout":10000,"timestamp":"1699999000000"}''\<close>

text \<open>A configuration whose refresh function answers every call with \<open>c\<close>, with an
  \<open>onChange\<close> callback and no \<open>timeSkew\<close>.\<close>

definition example_config :: "collab \<Rightarrow> TConfig" where
  "example_config c = \<lparr>refresh = Some (\<lambda>rt. c), onChange = True, timeSkew = SkewUndefined\<rparr>"

text \<open>A tab configured at 1699999000000 over a store that holds \<open>tokenA1\<close> (still valid
  then) and the refresh token \<open>R1\<close>; and the same tab 2000 seconds later, when \<open>tokenA1\<close>
  has expired.\<close>

definition logged_in_tab :: "collab \<Rightarrow> tab" where
  "logged_in_tab c =
    snd (configure example_platform (example_config c)
          (init [(''accessToken'', tokenA1), (''refreshToken'', ''R1'')] 1699999000000))"

definition expired_tab :: "collab \<Rightarrow> tab" where
  "expired_tab c = step example_platform (Advance 2000000) (logged_in_tab c)"

text \<open>What the refresh function of the examples resolves with.\<close>

definition newTokens :: TSetToken where
  "newTokens = \<lparr>accessToken = Some tokenA2, refreshToken = Some ''R2''\<rparr>"


section \<open>Evaluation and basic facts\<close>

lemmas store_defs = getItem_def setItem_def removeItem_def key_at_def

lemmas promise_defs = new_promise_def state_of_def settle_def await_on_def

lemmas locker_defs = lock_key_def isLocked_def setIsLocked_def timer_delay_def block_def release_def
  cleanup_def onTimeout_def onStorage_def

lemmas token_defs = TimeClip_def isExpired_def isExpired_exp_def load_def notify_def Token_clear_def Token_write_def
  isConfigured_def isLoggedIn_def on_catch_def iife_after_block_def or_empty_def
  iife_after_refresh_def iife_def Token_refresh_def Token_read_def read_after_refresh_def
  configure_def

lemmas loop_defs = run_job_def microtask_def deliver_def step_def

lemmas example_defs = example_platform_def tokenA1_def tokenA2_def tokenExp0_def
  tokenNoExp_def lockRecord_def example_config_def logged_in_tab_def expired_tab_def
  newTokens_def init_def

lemmas eval_defs = store_defs promise_defs locker_defs token_defs loop_defs example_defs
  decodeOnly_def Let_def

lemma drain_numeral:
  "drain pf (numeral n) s =
    (if microtasks s = [] then s else drain pf (pred_numeral n) (microtask pf s))"
  by (simp add: numeral_eq_Suc)

lemmas run_defs = eval_defs stored_access_def drain_numeral

lemma getItem_removeItem:
  "getItem (removeItem ls k) k' = (if k' = k then None else getItem ls k')"
  by (simp add: getItem_def removeItem_def delete_conv')

lemma getItem_setItem:
  "getItem (setItem ls k v) k' = (if k' = k then Some v else getItem ls k')"
  by (simp add: getItem_def setItem_def update_conv')

lemma decodeOnly_empty: "decodeOnly pf [] = None"
  by (simp add: decodeOnly_def)

subsection \<open>The decode cache\<close>

lemma cache_ok_init: "cache_ok pf (init ls t)"
  by (simp add: cache_ok_def init_def decodeOnly_empty)

lemma load_decoded:
  "cache_ok pf s \<Longrightarrow> ld_accessTokenDecoded (fst (load pf s)) = decodeOnly pf (stored_access s)"
  by (auto simp: load_def cache_ok_def stored_access_def Let_def)

lemma load_frame:
  "localStorage (snd (load pf s)) = localStorage s"
  "now (snd (load pf s)) = now s"
  "config (snd (load pf s)) = config s"
  by (simp_all add: load_def Let_def)

lemma cache_ok_load: "cache_ok pf s \<Longrightarrow> cache_ok pf (snd (load pf s))"
  by (auto simp: load_def cache_ok_def Let_def)

lemma cache_ok_clear: "cache_ok pf (snd (Token_clear s))"
  by (simp add: Token_clear_def cache_ok_def notify_def decodeOnly_empty Let_def
           split: option.splits)

lemma cache_ok_write:
  assumes "cache_ok pf s"
  shows "cache_ok pf (snd (Token_write pf a r s))"
proof (cases "config s")
  case None
  then show ?thesis using assms by (simp add: Token_write_def)
next
  case (Some cfg)
  show ?thesis
  proof (cases "falsy a")
    case True
    then show ?thesis using Some by (simp add: Token_write_def cache_ok_clear)
  next
    case False
    then show ?thesis
      using Some assms
      by (auto simp: Token_write_def load_def cache_ok_def notify_def Let_def)
  qed
qed

lemma cache_frame:
  "cache_ok pf (settle p out s) = cache_ok pf s"
  "cache_ok pf (await_on p c s) = cache_ok pf s"
  "cache_ok pf (snd (new_promise out s)) = cache_ok pf s"
  "cache_ok pf (notify cfg d s) = cache_ok pf s"
  "cache_ok pf (setIsLocked pf' k t s) = cache_ok pf s"
  "cache_ok pf (cleanup w s) = cache_ok pf s"
  "cache_ok pf (snd (isExpired_exp pf' j sk s)) = cache_ok pf s"
  by (simp_all add: cache_ok_def settle_def await_on_def new_promise_def notify_def
        setIsLocked_def cleanup_def isExpired_exp_def isExpired_def Let_def
      split: outcome.splits json.splits)

lemma cache_frame_locker:
  "cache_ok pf (release pf' k s) = cache_ok pf s"
  "cache_ok pf (snd (block pf' k t s)) = cache_ok pf s"
  "cache_ok pf (onTimeout w s) = cache_ok pf s"
  "cache_ok pf (onStorage ekey nv w s) = cache_ok pf s"
  by (simp_all add: release_def block_def onTimeout_def onStorage_def cache_frame Let_def split_def)
     (simp_all add: cache_ok_def new_promise_def)

lemma cache_frame_fold: "cache_ok pf (fold (onStorage ekey nv) ws s) = cache_ok pf s"
  by (induction ws arbitrary: s) (simp_all add: cache_frame_locker)

lemma cache_ok_catch: "cache_ok pf (on_catch pf' err pi s)"
  by (simp add: on_catch_def split_def Let_def cache_frame cache_frame_locker cache_ok_clear)

lemma cache_ok_after_block:
  "cache_ok pf s \<Longrightarrow> cache_ok pf (iife_after_block pf rt pi out s)"
  by (simp add: iife_after_block_def cache_frame cache_ok_catch Let_def split_def
           split: outcome.splits option.splits collab.splits)
     (simp add: cache_ok_def new_promise_def)

lemma cache_ok_after_refresh:
  assumes ok: "cache_ok pf s"
  shows "cache_ok pf (iife_after_refresh pf pi out s)"
proof -
  have w: "\<And>a r x y. Token_write pf a r s = (x, y) \<Longrightarrow> cache_ok pf y"
    using cache_ok_write [OF ok] by (metis snd_conv)
  show ?thesis
    using ok w
    by (auto simp: iife_after_refresh_def cache_frame cache_frame_locker cache_ok_catch
             split: outcome.splits sum.splits prod.splits)
qed

lemma cache_ok_read_after:
  "cache_ok pf s \<Longrightarrow> cache_ok pf (read_after_refresh pf pr out s)"
  using cache_ok_load [of pf s]
  by (simp add: read_after_refresh_def cache_frame split_def Let_def split: outcome.splits)

lemma cache_ok_microtask:
  assumes ok: "cache_ok pf s"
  shows "cache_ok pf (microtask pf s)"
proof (cases "microtasks s")
  case Nil
  then show ?thesis using ok by (simp add: microtask_def)
next
  case (Cons j js)
  have ok': "cache_ok pf (s\<lparr>microtasks := js\<rparr>)" using ok by (simp add: cache_ok_def)
  show ?thesis
    using Cons cache_ok_after_block [OF ok'] cache_ok_after_refresh [OF ok']
      cache_ok_read_after [OF ok'] ok'
    by (simp add: microtask_def run_job_def cache_frame split: job.splits cont.splits)
qed

lemma cache_ok_step: "cache_ok pf s \<Longrightarrow> cache_ok pf (step pf ev s)"
  by (cases ev)
     (simp_all add: step_def deliver_def cache_frame cache_frame_locker cache_frame_fold
        cache_ok_microtask cache_ok_def [of pf "s\<lparr>localStorage := x\<rparr>" for x]
        cache_ok_def [of pf "s\<lparr>now := x\<rparr>" for x] cache_ok_def [of pf s]
        split: list.splits)

lemma cache_ok_run: "cache_ok pf s \<Longrightarrow> cache_ok pf (run pf evs s)"
  by (induction evs arbitrary: s) (simp_all add: cache_ok_step)

lemma cache_ok_drain: "cache_ok pf s \<Longrightarrow> cache_ok pf (drain pf n s)"
  by (induction n arbitrary: s) (simp_all add: cache_ok_microtask)

lemma cache_ok_iife: "cache_ok pf s \<Longrightarrow> cache_ok pf (snd (iife pf s))"
  using cache_ok_load [of pf s] cache_ok_clear [of pf "snd (load pf s)"]
  by (simp add: iife_def split_def Let_def cache_frame cache_frame_locker split: sum.splits prod.splits)

lemma cache_ok_refresh: "cache_ok pf s \<Longrightarrow> cache_ok pf (snd (Token_refresh pf s))"
  using cache_ok_iife [of pf s]
  by (simp add: Token_refresh_def split_def Let_def cache_frame split: option.splits)
     (simp add: cache_ok_def new_promise_def)

lemma cache_ok_read:
  assumes ok: "cache_ok pf s"
  shows "cache_ok pf (snd (Token_read pf s))"
proof (cases "config s")
  case None
  then show ?thesis using ok by (simp add: Token_read_def cache_frame)
next
  case (Some cfg)
  obtain l s1 where l: "load pf s = (l, s1)" by (cases "load pf s")
  have ok1: "cache_ok pf s1" using cache_ok_load [OF ok] l by simp
  show ?thesis
  proof (cases "ld_accessTokenDecoded l")
    case None
    then show ?thesis using Some l ok1 by (simp add: Token_read_def cache_frame)
  next
    case d: (Some d)
    obtain r s2 where r: "isExpired_exp pf (payload d) (timeSkew cfg) s1 = (r, s2)"
      by (cases "isExpired_exp pf (payload d) (timeSkew cfg) s1")
    have ok2: "cache_ok pf s2" using cache_frame(7) [of pf pf "payload d" "timeSkew cfg" s1] r ok1 by simp
    have ok3: "cache_ok pf (snd (Token_refresh pf s2))" using cache_ok_refresh [OF ok2] .
    show ?thesis
      using Some l d r ok2 ok3
      by (simp add: Token_read_def cache_frame split_def Let_def split: sum.splits bool.splits)
  qed
qed

lemma cache_ok_isLoggedIn: "cache_ok pf s \<Longrightarrow> cache_ok pf (snd (isLoggedIn pf s))"
  using cache_ok_load [of pf s]
  by (simp add: isLoggedIn_def split_def Let_def cache_frame split: option.splits sum.splits prod.splits)

lemma cache_ok_configure:
  assumes ok: "cache_ok pf s"
  shows "cache_ok pf (snd (configure pf options s))"
proof (cases "refresh options")
  case None
  then show ?thesis using ok by (simp add: configure_def)
next
  case (Some f)
  define cfg where "cfg = options\<lparr>timeSkew := (case timeSkew options of SkewUndefined \<Rightarrow> SkewNum 15 | sk \<Rightarrow> sk)\<rparr>"
  obtain l s2 where l: "load pf (s\<lparr>config := Some cfg\<rparr>) = (l, s2)"
    by (cases "load pf (s\<lparr>config := Some cfg\<rparr>)")
  have ok0: "cache_ok pf (s\<lparr>config := Some cfg\<rparr>)" using ok by (simp add: cache_ok_def)
  have ok2: "cache_ok pf s2" using cache_ok_load [OF ok0] l by simp
  have w: "\<And>a r s'. cache_ok pf s' \<Longrightarrow> cache_ok pf (snd (Token_write pf a r s'))"
    by (rule cache_ok_write)
  show ?thesis
  proof (cases "ld_accessTokenDecoded l")
    case None
    then show ?thesis using Some l w [OF ok2] by (simp add: configure_def cfg_def Let_def)
  next
    case d: (Some d)
    obtain r s3 where r: "isExpired_exp pf (payload d) (timeSkew cfg) s2 = (r, s3)"
      by (cases "isExpired_exp pf (payload d) (timeSkew cfg) s2")
    have ok3: "cache_ok pf s3" using cache_frame(7) [of pf pf "payload d" "timeSkew cfg" s2] r ok2 by simp
    show ?thesis
      using Some l d r ok3 w [OF ok3] cache_ok_refresh [OF ok3]
      by (simp add: configure_def cfg_def [symmetric] Let_def split: sum.splits bool.splits)
  qed
qed

lemma cache_ok_act: "cache_ok pf s \<Longrightarrow> cache_ok pf (act pf a s)"
  by (cases a)
     (simp_all add: act_def cache_ok_configure cache_ok_write cache_ok_clear cache_ok_isLoggedIn
        cache_ok_read cache_ok_refresh cache_frame_locker cache_ok_step)

lemma cache_ok_acts: "cache_ok pf s \<Longrightarrow> cache_ok pf (acts pf as s)"
  by (induction as arbitrary: s) (simp_all add: cache_ok_act)

text \<open>The cache is coherent in every state a tab can reach.\<close>

lemma cache_ok_reachable: "cache_ok pf (acts pf as (init ls t))"
  by (simp add: cache_ok_acts cache_ok_init)

section \<open>The stored promise and the count of renewals\<close>

text \<open>No event and no function of the module other than \<open>Token.refresh\<close> assigns
  \<open>refreshPromise\<close>, and \<open>Token.refresh\<close> assigns it only when it is \<open>null\<close>.\<close>

lemma rp_basic:
  "refreshPromise (settle p out s) = refreshPromise s"
  "refreshPromise (await_on p c s) = refreshPromise s"
  "refreshPromise (snd (new_promise out s)) = refreshPromise s"
  "refreshPromise (snd (load pf s)) = refreshPromise s"
  "refreshPromise (notify cfg d s) = refreshPromise s"
  "refreshPromise (setIsLocked pf k t s) = refreshPromise s"
  "refreshPromise (cleanup w s) = refreshPromise s"
  by (simp_all add: settle_def await_on_def new_promise_def load_def notify_def setIsLocked_def
        cleanup_def Let_def split: outcome.splits)

lemma rp_locker:
  "refreshPromise (release pf k s) = refreshPromise s"
  "refreshPromise (snd (block pf k t s)) = refreshPromise s"
  "refreshPromise (onTimeout w s) = refreshPromise s"
  "refreshPromise (onStorage ekey nv w s) = refreshPromise s"
  by (simp_all add: release_def block_def onTimeout_def onStorage_def rp_basic new_promise_def
        Let_def split_def)

lemma rp_fold: "refreshPromise (fold (onStorage ekey nv) ws s) = refreshPromise s"
  by (induction ws arbitrary: s) (simp_all add: rp_locker)

lemma rp_clear: "refreshPromise (snd (Token_clear s)) = refreshPromise s"
  by (simp add: Token_clear_def rp_basic Let_def split: option.splits)

lemma rp_write: "refreshPromise (snd (Token_write pf a r s)) = refreshPromise s"
  by (simp add: Token_write_def rp_clear rp_basic load_def Let_def split_def split: option.splits)

lemma rp_isExpired: "refreshPromise (snd (isExpired_exp pf j sk s)) = refreshPromise s"
  by (simp add: isExpired_exp_def isExpired_def Let_def split: json.splits)

lemma rp_catch: "refreshPromise (on_catch pf err pi s) = refreshPromise s"
  by (simp add: on_catch_def rp_basic rp_locker rp_clear Let_def split_def)

lemma rp_after_block: "refreshPromise (iife_after_block pf rt pi out s) = refreshPromise s"
  by (simp add: iife_after_block_def rp_basic rp_catch new_promise_def Let_def split_def
           split: outcome.splits option.splits collab.splits)

lemma rp_after_refresh: "refreshPromise (iife_after_refresh pf pi out s) = refreshPromise s"
  by (simp add: iife_after_refresh_def rp_basic rp_locker rp_catch rp_write Let_def split_def
           split: outcome.splits sum.splits prod.splits)

lemma rp_read_after: "refreshPromise (read_after_refresh pf pr out s) = refreshPromise s"
  by (simp add: read_after_refresh_def rp_basic Let_def split_def split: outcome.splits)

lemma rp_microtask: "refreshPromise (microtask pf s) = refreshPromise s"
  by (simp add: microtask_def run_job_def rp_basic rp_after_block rp_after_refresh rp_read_after
           split: list.splits job.splits cont.splits)

lemma rp_step: "refreshPromise (step pf ev s) = refreshPromise s"
  by (simp add: step_def deliver_def rp_fold rp_locker rp_basic rp_microtask
           split: event.splits list.splits)

lemma rp_run: "refreshPromise (run pf evs s) = refreshPromise s"
  by (induction evs arbitrary: s) (simp_all add: rp_step)

lemma rp_drain: "refreshPromise (drain pf n s) = refreshPromise s"
  by (induction n arbitrary: s) (simp_all add: rp_microtask)

lemma rp_refresh:
  "refreshPromise s = Some p \<Longrightarrow> refreshPromise (snd (Token_refresh pf s)) = Some p"
  by (simp add: Token_refresh_def new_promise_def Let_def split: option.splits)

lemma rp_read:
  "refreshPromise s = Some p \<Longrightarrow> refreshPromise (snd (Token_read pf s)) = Some p"
  by (simp add: Token_read_def rp_basic rp_isExpired rp_refresh new_promise_def load_def
        isExpired_exp_def isExpired_def Let_def split_def Token_refresh_def
      split: option.splits sum.splits bool.splits json.splits)

lemma filter_split_length:
  "length (filter P (filter Q xs)) + length (filter P (filter (\<lambda>x. \<not> Q x) xs)) = length (filter P xs)"
  by (induction xs) auto

lemma filter_resume:
  "filter job_starts_call (map (\<lambda>r. Resume (snd r) out) rs)
     = map (\<lambda>r. Resume (snd r) out) (filter (\<lambda>r. starts_call (snd r)) rs)"
  by (induction rs) auto

lemma rn_settle: "renewals (settle p out s) = renewals s"
proof -
  have "length (filter (\<lambda>r. starts_call (snd r)) (filter (\<lambda>r. fst r = p) (reactions s)))
      + length (filter (\<lambda>r. starts_call (snd r)) (filter (\<lambda>r. fst r \<noteq> p) (reactions s)))
      = length (filter (\<lambda>r. starts_call (snd r)) (reactions s))"
    using filter_split_length [of "\<lambda>r. starts_call (snd r)" "\<lambda>r. fst r = p" "reactions s"] by simp
  then show ?thesis
    by (simp add: renewals_def settle_def filter_resume)
qed

lemma rn_await: "renewals (await_on p c s) = renewals s + (if starts_call c then 1 else 0)"
  by (simp add: renewals_def await_on_def split: outcome.splits)

lemma rn_basic:
  "renewals (snd (new_promise out s)) = renewals s"
  "renewals (snd (load pf s)) = renewals s"
  "renewals (notify cfg d s) = renewals s"
  "renewals (setIsLocked pf k t s) = renewals s"
  "renewals (cleanup w s) = renewals s"
  "renewals (snd (isExpired_exp pf j sk s)) = renewals s"
  by (simp_all add: renewals_def new_promise_def load_def notify_def setIsLocked_def
        cleanup_def isExpired_exp_def isExpired_def Let_def split: json.splits)

lemma rn_locker:
  "renewals (release pf k s) = renewals s"
  "renewals (snd (block pf k t s)) = renewals s"
  "renewals (onTimeout w s) = renewals s"
  "renewals (onStorage ekey nv w s) = renewals s"
  by (simp_all add: release_def block_def onTimeout_def onStorage_def rn_basic rn_settle
        Let_def split_def)
     (simp_all add: renewals_def new_promise_def)

lemma rn_fold: "renewals (fold (onStorage ekey nv) ws s) = renewals s"
  by (induction ws arbitrary: s) (simp_all add: rn_locker)

lemma rn_clear: "renewals (snd (Token_clear s)) = renewals s"
  by (simp add: Token_clear_def rn_basic Let_def split: option.splits)
     (simp add: renewals_def)

lemma rn_write: "renewals (snd (Token_write pf a r s)) = renewals s"
  by (simp add: Token_write_def rn_clear rn_basic split_def Let_def split: option.splits)
     (simp add: renewals_def load_def Let_def)

lemma rn_catch: "renewals (on_catch pf err pi s) = renewals s"
  by (simp add: on_catch_def rn_settle rn_locker rn_clear Let_def split_def)

lemma rn_after_block: "renewals (iife_after_block pf rt pi out s) \<le> renewals s + 1"
  by (simp add: iife_after_block_def rn_settle rn_await rn_catch Let_def split_def
           split: outcome.splits option.splits collab.splits)
     (simp add: renewals_def new_promise_def)

lemma rn_after_refresh: "renewals (iife_after_refresh pf pi out s) = renewals s"
proof -
  have w: "\<And>a r x y. Token_write pf a r s = (x, y) \<Longrightarrow> renewals y = renewals s"
    using rn_write [of pf _ _ s] by (metis snd_conv)
  show ?thesis
    using w
    by (auto simp: iife_after_refresh_def rn_settle rn_locker rn_catch
             split: outcome.splits sum.splits prod.splits)
qed

lemma rn_read_after: "renewals (read_after_refresh pf pr out s) = renewals s"
  by (simp add: read_after_refresh_def rn_settle rn_basic Let_def split_def split: outcome.splits)

lemma rn_microtask: "renewals (microtask pf s) \<le> renewals s"
proof (cases "microtasks s")
  case Nil
  then show ?thesis by (simp add: microtask_def)
next
  case (Cons j js)
  have rest: "renewals (s\<lparr>microtasks := js\<rparr>) + (if job_starts_call j then 1 else 0) = renewals s"
    using Cons by (simp add: renewals_def)
  show ?thesis
  proof (cases j)
    case (ResolveThenable src dst)
    then show ?thesis using Cons rest by (simp add: microtask_def run_job_def rn_await)
  next
    case (Resume k out)
    show ?thesis
    proof (cases k)
      case (IifeAfterBlock rt pi)
      then show ?thesis
        using Cons Resume rest rn_after_block [of pf rt pi out "s\<lparr>microtasks := js\<rparr>"]
        by (simp add: microtask_def run_job_def)
    next
      case (IifeAfterRefresh pi)
      then show ?thesis using Cons Resume rest by (simp add: microtask_def run_job_def rn_after_refresh)
    next
      case (ReadAfterRefresh pr)
      then show ?thesis using Cons Resume rest by (simp add: microtask_def run_job_def rn_read_after)
    next
      case (Adopt dst)
      then show ?thesis using Cons Resume rest by (simp add: microtask_def run_job_def rn_settle)
    qed
  qed
qed

lemma rn_step: "renewals (step pf ev s) \<le> renewals s"
proof (cases ev)
  case Microtask
  then show ?thesis using rn_microtask [of pf s] by (simp add: step_def)
next
  case (OtherSet k v)
  then show ?thesis by (simp add: step_def deliver_def rn_fold) (simp add: renewals_def)
next
  case (OtherRemove k)
  then show ?thesis by (simp add: step_def deliver_def rn_fold) (simp add: renewals_def)
next
  case (TimerFires p)
  then show ?thesis by (simp add: step_def rn_locker split: list.splits)
next
  case (Settles p out)
  then show ?thesis by (simp add: step_def rn_settle)
next
  case (Advance d)
  then show ?thesis by (simp add: step_def renewals_def)
qed

lemma rp_isLoggedIn: "refreshPromise (snd (isLoggedIn pf s)) = refreshPromise s"
  by (simp add: isLoggedIn_def rp_basic rp_isExpired split_def Let_def
           split: option.splits sum.splits prod.splits)

lemma rn_isLoggedIn: "renewals (snd (isLoggedIn pf s)) = renewals s"
  by (simp add: isLoggedIn_def rn_basic split_def Let_def
           split: option.splits sum.splits prod.splits)

lemma rn_iife: "renewals (snd (iife pf s)) \<le> renewals s + 1"
  by (simp add: iife_def rn_basic rn_locker rn_clear rn_await split_def Let_def
           split: sum.splits prod.splits)

lemma rp_iife: "refreshPromise (snd (iife pf s)) = refreshPromise s"
  by (simp add: iife_def rp_basic rp_locker rp_clear split_def Let_def
           split: sum.splits prod.splits)

lemma sf_frame:
  "renewals s' \<le> renewals s \<Longrightarrow> refreshPromise s' = refreshPromise s \<Longrightarrow>
   single_flight s \<Longrightarrow> single_flight s'"
  by (simp add: single_flight_def split: option.splits)

lemma sf_refresh:
  assumes "single_flight s"
  shows "single_flight (snd (Token_refresh pf s))"
proof (cases "config s")
  case None
  then show ?thesis
    using assms by (simp add: Token_refresh_def single_flight_def renewals_def new_promise_def)
next
  case (Some cfg)
  show ?thesis
  proof (cases "refreshPromise s")
    case rp: (Some p)
    then show ?thesis
      using assms Some
      by (simp add: Token_refresh_def single_flight_def renewals_def new_promise_def Let_def)
  next
    case None
    then have z: "renewals s = 0" using assms by (simp add: single_flight_def)
    have "renewals (snd (iife pf s)) \<le> 1" using rn_iife [of pf s] z by simp
    then show ?thesis
      using Some None
      by (simp add: Token_refresh_def single_flight_def split_def Let_def new_promise_def
            renewals_def)
  qed
qed

lemma sf_read:
  assumes ok: "single_flight s"
  shows "single_flight (snd (Token_read pf s))"
proof (cases "config s")
  case None
  then show ?thesis
    using ok by (simp add: Token_read_def single_flight_def renewals_def new_promise_def)
next
  case (Some cfg)
  obtain l s1 where l: "load pf s = (l, s1)" by (cases "load pf s")
  have ok1: "single_flight s1"
    using sf_frame [OF _ _ ok, of s1] rn_basic(2) [of pf s] rp_basic(4) [of pf s] l by simp
  show ?thesis
  proof (cases "ld_accessTokenDecoded l")
    case None
    then show ?thesis
      using Some l ok1 by (simp add: Token_read_def single_flight_def renewals_def new_promise_def)
  next
    case d: (Some d)
    obtain r s2 where r: "isExpired_exp pf (payload d) (timeSkew cfg) s1 = (r, s2)"
      by (cases "isExpired_exp pf (payload d) (timeSkew cfg) s1")
    have ok2: "single_flight s2"
      using sf_frame [OF _ _ ok1, of s2] rn_basic(6) [of pf "payload d" "timeSkew cfg" s1]
        rp_isExpired [of pf "payload d" "timeSkew cfg" s1] r by simp
    have ok3: "single_flight (snd (Token_refresh pf s2))" using sf_refresh [OF ok2] .
    have fin: "\<And>s' out c q. single_flight s' \<Longrightarrow> \<not> starts_call c \<Longrightarrow>
        single_flight (await_on q c (snd (new_promise out s')))"
      by (rule sf_frame [rotated 2]) (simp_all add: rn_await rn_basic rp_basic)
    show ?thesis
      using Some l d r ok2 ok3 fin [OF ok3] fin
      by (simp add: Token_read_def split_def Let_def split: sum.splits bool.splits)
         (simp_all add: single_flight_def renewals_def new_promise_def)
  qed
qed

lemma sf_configure:
  assumes ok: "single_flight s"
  shows "single_flight (snd (configure pf options s))"
proof (cases "refresh options")
  case None
  then show ?thesis using ok by (simp add: configure_def)
next
  case (Some f)
  define cfg where "cfg = options\<lparr>timeSkew := (case timeSkew options of SkewUndefined \<Rightarrow> SkewNum 15 | sk \<Rightarrow> sk)\<rparr>"
  obtain l s2 where l: "load pf (s\<lparr>config := Some cfg\<rparr>) = (l, s2)"
    by (cases "load pf (s\<lparr>config := Some cfg\<rparr>)")
  have ok0: "single_flight (s\<lparr>config := Some cfg\<rparr>)"
    using ok by (simp add: single_flight_def renewals_def)
  have ok2: "single_flight s2"
    using sf_frame [OF _ _ ok0, of s2] rn_basic(2) [of pf "s\<lparr>config := Some cfg\<rparr>"]
      rp_basic(4) [of pf "s\<lparr>config := Some cfg\<rparr>"] l by simp
  have w: "\<And>a r s'. single_flight s' \<Longrightarrow> single_flight (snd (Token_write pf a r s'))"
    by (rule sf_frame [rotated 2]) (simp_all add: rn_write rp_write)
  show ?thesis
  proof (cases "ld_accessTokenDecoded l")
    case None
    then show ?thesis using Some l w [OF ok2] by (simp add: configure_def cfg_def Let_def)
  next
    case d: (Some d)
    obtain r s3 where r: "isExpired_exp pf (payload d) (timeSkew cfg) s2 = (r, s3)"
      by (cases "isExpired_exp pf (payload d) (timeSkew cfg) s2")
    have ok3: "single_flight s3"
      using sf_frame [OF _ _ ok2, of s3] rn_basic(6) [of pf "payload d" "timeSkew cfg" s2]
        rp_isExpired [of pf "payload d" "timeSkew cfg" s2] r by simp
    show ?thesis
      using Some l d r ok3 w [OF ok3] sf_refresh [OF ok3]
      by (simp add: configure_def cfg_def [symmetric] Let_def split: sum.splits bool.splits)
  qed
qed

lemma sf_act: "single_flight s \<Longrightarrow> single_flight (act pf a s)"
proof (cases a)
  case (Configure options)
  assume "single_flight s"
  then show ?thesis using Configure by (simp add: act_def sf_configure)
next
  case (Write x y)
  assume "single_flight s"
  then show ?thesis
    using Write sf_frame [of "snd (Token_write pf x y s)" s] by (simp add: act_def rn_write rp_write)
next
  case Clear
  assume "single_flight s"
  then show ?thesis
    using Clear sf_frame [of "snd (Token_clear s)" s] by (simp add: act_def rn_clear rp_clear)
next
  case IsLoggedIn
  assume "single_flight s"
  then show ?thesis
    using IsLoggedIn sf_frame [of "snd (isLoggedIn pf s)" s]
    by (simp add: act_def rn_isLoggedIn rp_isLoggedIn)
next
  case Read
  assume "single_flight s"
  then show ?thesis using Read by (simp add: act_def sf_read)
next
  case Refresh
  assume "single_flight s"
  then show ?thesis using Refresh by (simp add: act_def sf_refresh)
next
  case (Block k t)
  assume "single_flight s"
  then show ?thesis
    using Block sf_frame [of "snd (block pf k t s)" s] by (simp add: act_def rn_locker rp_locker)
next
  case (Release k)
  assume "single_flight s"
  then show ?thesis
    using Release sf_frame [of "release pf k s" s] by (simp add: act_def rn_locker rp_locker)
next
  case (Event ev)
  assume "single_flight s"
  then show ?thesis
    using Event sf_frame [of "step pf ev s" s] by (simp add: act_def rn_step rp_step)
qed

lemma sf_acts: "single_flight s \<Longrightarrow> single_flight (acts pf as s)"
  by (induction as arbitrary: s) (simp_all add: sf_act)

lemma sf_init: "single_flight (init ls t)"
  by (simp add: single_flight_def renewals_def init_def)

text \<open>From the loaded module on, whatever the application calls and whatever happens,
  the refresh function is called at most once in the life of the tab.\<close>

theorem refresh_function_called_at_most_once:
  "length (refreshCalls (acts pf as (init ls t))) \<le> 1"
proof -
  have "single_flight (acts pf as (init ls t))" using sf_acts [OF sf_init] .
  then show ?thesis by (simp add: single_flight_def renewals_def split: option.splits)
qed

section \<open>Token.write and Token.clear\<close>

text \<open>
  C7.  In a configured manager, \<open>write\<close> with an empty or absent access token (\<open>''\<close>,
  \<open>null\<close>, \<open>undefined\<close>) and any second argument does exactly what \<open>clear\<close> does, and
  \<open>clear\<close> returns normally, leaves neither token in the store, resets the cached token
  and its decoding, and, when an \<open>onChange\<close> callback is configured, calls it once with
  \<open>null\<close>.
\<close>

theorem write_empty_is_clear:
  assumes "config s = Some cfg" and "falsy a"
  shows "Token_write pf a r s = Token_clear s
     \<and> fst (Token_clear s) = Inr ()
     \<and> getItem (localStorage (snd (Token_clear s))) ''accessToken'' = None
     \<and> getItem (localStorage (snd (Token_clear s))) ''refreshToken'' = None
     \<and> lastAccessToken (snd (Token_clear s)) = []
     \<and> lastAccessTokenDecoded (snd (Token_clear s)) = None
     \<and> (onChange cfg \<longrightarrow> changes (snd (Token_clear s)) = changes s @ [None])"
  using assms
  by (simp add: Token_write_def Token_clear_def notify_def getItem_removeItem Let_def)

theorem write_empty_is_clear_witness:
  "config (logged_in_tab (Returns Pending)) = Some (example_config (Returns Pending)\<lparr>timeSkew := SkewNum 15\<rparr>)
   \<and> falsy ANull
   \<and> getItem (localStorage (logged_in_tab (Returns Pending))) ''accessToken'' = Some tokenA1
   \<and> Token_write example_platform ANull (AStr ''R9'') (logged_in_tab (Returns Pending))
       = Token_clear (logged_in_tab (Returns Pending))
   \<and> getItem (localStorage (snd (Token_clear (logged_in_tab (Returns Pending))))) ''accessToken'' = None
   \<and> getItem (localStorage (snd (Token_clear (logged_in_tab (Returns Pending))))) ''refreshToken'' = None
   \<and> changes (snd (Token_clear (logged_in_tab (Returns Pending))))
       = changes (logged_in_tab (Returns Pending)) @ [None]"
proof -
  have c: "config (logged_in_tab (Returns Pending))
      = Some (example_config (Returns Pending)\<lparr>timeSkew := SkewNum 15\<rparr>)"
    by (simp add: eval_defs)
  have f: "falsy ANull" by simp
  have g: "getItem (localStorage (logged_in_tab (Returns Pending))) ''accessToken'' = Some tokenA1"
    by (simp add: eval_defs)
  have o: "onChange (example_config (Returns Pending)\<lparr>timeSkew := SkewNum 15\<rparr>)"
    by (simp add: example_config_def)
  show ?thesis
    using write_empty_is_clear [OF c f, of example_platform "AStr ''R9''"] c g o by simp
qed

text \<open>
  C9.  Before \<open>configure\<close> has run, \<open>config\<close> is \<open>undefined\<close>.  \<open>clear\<close> then removes both
  tokens from the store and resets the cache, and its last statement, which reads
  \<open>config.onChange\<close>, raises a \<open>TypeError\<close>; no notification is made.
\<close>

theorem clear_unconfigured_raises:
  "fst (Token_clear (init ls t)) = Inl TypeError
   \<and> localStorage (snd (Token_clear (init ls t)))
       = removeItem (removeItem ls ''accessToken'') ''refreshToken''
   \<and> changes (snd (Token_clear (init ls t))) = []"
  by (simp add: Token_clear_def init_def Let_def)

section \<open>Token.isLoggedIn\<close>

text \<open>
  C8.  The answer of \<open>isLoggedIn\<close> in a configured manager, for every stored string:
  \<open>false\<close> when the string does not decode; a \<open>JsonWebTokenError\<close>, raised by the guard
  of \<open>jwt.isExpired\<close> and not caught, when the decoded \<open>exp\<close> is zero or negative; otherwise
  a boolean, which is false when the development switch forces expiry and else true iff
  the expiry has not passed: iff the \<open>Date\<close> of \<open>exp * 1000\<close> is later than the clock after
  \<open>setSeconds\<close> has added the configured skew (15 when the configured skew is not a
  number) in local time, an absent \<open>exp\<close> and an Invalid Date on either side never
  counting as passed.  Where \<open>setSeconds\<close> adds the skew as it is (no change of the zone
  offset in between) and \<open>exp * 1000\<close> is in the range of \<open>Date\<close>, that is
  \<open>now + skew * 1000 < exp * 1000\<close>.  (A payload that is the JSON value \<open>null\<close> decodes, and
  reading its \<open>exp\<close> is a \<open>TypeError\<close>.)
\<close>

theorem isLoggedIn_result:
  assumes "config s = Some cfg" and "cache_ok pf s"
  shows "fst (isLoggedIn pf s) =
    (case decodeOnly pf (stored_access s) of
       None \<Rightarrow> Inr False
     | Some d \<Rightarrow>
         (case payload d of
            JNull \<Rightarrow> Inl TypeError
          | JValue e tm ts \<Rightarrow>
              (case e of
                 None \<Rightarrow> Inr (\<not> forced pf s)
               | Some n \<Rightarrow>
                   if n \<le> 0 then Inl JsonWebTokenError
                   else Inr (\<not> forced pf s \<and>
                     (case (setSeconds pf (now s) (skew_of cfg), TimeClip (n * 1000)) of
                        (Some a, Some b) \<Rightarrow> a < b
                      | _ \<Rightarrow> True)))))
   \<and> (\<forall>d n tm ts.
         setSeconds pf (now s) (skew_of cfg) = Some (now s + 1000 * skew_of cfg)
         \<longrightarrow> decodeOnly pf (stored_access s) = Some d
         \<longrightarrow> payload d = JValue (Some n) tm ts
         \<longrightarrow> 0 < n
         \<longrightarrow> n * 1000 \<le> 8640000000000000
         \<longrightarrow> fst (isLoggedIn pf s)
               = Inr (\<not> forced pf s \<and> now s + 1000 * skew_of cfg < n * 1000))"
proof -
  obtain l s1 where l: "load pf s = (l, s1)" by (cases "load pf s")
  have d: "ld_accessTokenDecoded l = decodeOnly pf (stored_access s)"
    using load_decoded [OF assms(2)] l by simp
  have fr: "localStorage s1 = localStorage s" "now s1 = now s"
    using load_frame [of pf s] l by simp_all
  have general: "fst (isLoggedIn pf s) =
    (case decodeOnly pf (stored_access s) of
       None \<Rightarrow> Inr False
     | Some d \<Rightarrow>
         (case payload d of
            JNull \<Rightarrow> Inl TypeError
          | JValue e tm ts \<Rightarrow>
              (case e of
                 None \<Rightarrow> Inr (\<not> forced pf s)
               | Some n \<Rightarrow>
                   if n \<le> 0 then Inl JsonWebTokenError
                   else Inr (\<not> forced pf s \<and>
                     (case (setSeconds pf (now s) (skew_of cfg), TimeClip (n * 1000)) of
                        (Some a, Some b) \<Rightarrow> a < b
                      | _ \<Rightarrow> True)))))"
    using assms(1) l d fr
    by (auto simp: isLoggedIn_def isExpired_exp_def isExpired_def forced_def skew_of_def Let_def
             split: option.splits skew.splits prod.splits sum.splits json.splits)
  have plain: "fst (isLoggedIn pf s) = Inr (\<not> forced pf s \<and> now s + 1000 * skew_of cfg < n * 1000)"
    if "setSeconds pf (now s) (skew_of cfg) = Some (now s + 1000 * skew_of cfg)"
      and "decodeOnly pf (stored_access s) = Some d'"
      and "payload d' = JValue (Some n) tm ts"
      and "0 < n" and "n * 1000 \<le> 8640000000000000"
    for d' n tm ts
    using general that by (simp add: TimeClip_def)
  show ?thesis
    using general plain by blast
qed

theorem isLoggedIn_result_witness:
  "config (logged_in_tab (Returns Pending)) = Some (example_config (Returns Pending)\<lparr>timeSkew := SkewNum 15\<rparr>)
   \<and> cache_ok example_platform (logged_in_tab (Returns Pending))
   \<and> stored_access (logged_in_tab (Returns Pending)) = tokenA1
   \<and> setSeconds example_platform (now (logged_in_tab (Returns Pending))) 15
       = Some (now (logged_in_tab (Returns Pending)) + 1000 * 15)
   \<and> decodeOnly example_platform tokenA1 =
       Some \<lparr>header = JValue None None None,
             payload = JValue (Some 1700000000) None None,
             additional = None\<rparr>
   \<and> (0::int) < 1700000000
   \<and> (1700000000::int) * 1000 \<le> 8640000000000000
   \<and> fst (isLoggedIn example_platform (logged_in_tab (Returns Pending))) = Inr True
   \<and> fst (isLoggedIn example_platform (expired_tab (Returns Pending))) = Inr False"
proof -
  let ?s = "logged_in_tab (Returns Pending)"
  let ?s' = "expired_tab (Returns Pending)"
  let ?cfg = "example_config (Returns Pending)\<lparr>timeSkew := SkewNum 15\<rparr>"
  let ?d = "\<lparr>header = JValue None None None,
            payload = JValue (Some 1700000000) None None,
            additional = None\<rparr>"
  have c: "config ?s = Some ?cfg" by (simp add: eval_defs)
  have k: "cache_ok example_platform ?s" by (simp add: cache_ok_def eval_defs)
  have c': "config ?s' = Some ?cfg" by (simp add: eval_defs)
  have k': "cache_ok example_platform ?s'" by (simp add: cache_ok_def eval_defs)
  have a: "stored_access ?s = tokenA1" by (simp add: stored_access_def eval_defs)
  have a': "stored_access ?s' = tokenA1" by (simp add: stored_access_def eval_defs)
  have d: "decodeOnly example_platform tokenA1 = Some ?d"
    by (simp add: decodeOnly_def example_platform_def tokenA1_def)
  have n: "now ?s = 1699999000000" "now ?s' = 1700001000000"
    by (simp_all add: eval_defs)
  have sk: "skew_of ?cfg = 15" by (simp add: skew_of_def example_config_def)
  have ss: "setSeconds example_platform (now ?s) 15 = Some (now ?s + 1000 * 15)"
           "setSeconds example_platform (now ?s') 15 = Some (now ?s' + 1000 * 15)"
    by (simp_all add: n example_platform_def TimeClip_def)
  have f: "\<not> forced example_platform ?s" "\<not> forced example_platform ?s'"
    by (simp_all add: forced_def example_platform_def)
  have p: "payload ?d = JValue (Some 1700000000) None None" by simp
  have d1: "decodeOnly example_platform (stored_access ?s) = Some ?d" using d a by simp
  have d1': "decodeOnly example_platform (stored_access ?s') = Some ?d" using d a' by simp
  have ss1: "setSeconds example_platform (now ?s) (skew_of ?cfg)
      = Some (now ?s + 1000 * skew_of ?cfg)"
    using ss(1) sk by simp
  have ss1': "setSeconds example_platform (now ?s') (skew_of ?cfg)
      = Some (now ?s' + 1000 * skew_of ?cfg)"
    using ss(2) sk by simp
  have r: "fst (isLoggedIn example_platform ?s)
      = Inr (\<not> forced example_platform ?s \<and> now ?s + 1000 * skew_of ?cfg < 1700000000 * 1000)"
    using isLoggedIn_result [OF c k, THEN conjunct2, rule_format, OF ss1 d1 p] by simp
  have r': "fst (isLoggedIn example_platform ?s')
      = Inr (\<not> forced example_platform ?s' \<and> now ?s' + 1000 * skew_of ?cfg < 1700000000 * 1000)"
    using isLoggedIn_result [OF c' k', THEN conjunct2, rule_format, OF ss1' d1' p] by simp
  show ?thesis
    using c k a ss(1) d r r' n f sk by simp
qed

text \<open>A token whose payload is \<open>{"exp":0}\<close>, written by \<open>Token.write\<close>: \<open>isLoggedIn\<close>
  raises.\<close>

theorem isLoggedIn_raises_on_zero_exp:
  "fst (isLoggedIn example_platform
         (snd (Token_write example_platform (AStr tokenExp0) (AStr ''R1'')
                (logged_in_tab (Returns Pending))))) = Inl JsonWebTokenError"
  by (simp add: eval_defs)


section \<open>The loop at module load\<close>

lemma delete_nth:
  "distinct (map fst ls) \<Longrightarrow> i < length ls \<Longrightarrow>
   AList.delete (fst (ls ! i)) ls = take i ls @ drop (Suc i) ls"
proof (induction ls arbitrary: i)
  case Nil
  then show ?case by simp
next
  case (Cons x xs)
  show ?case
  proof (cases i)
    case 0
    have "fst x \<notin> fst ` set xs" using Cons.prems(1) by auto
    then show ?thesis using 0 by (cases x) (simp add: delete_id)
  next
    case (Suc j)
    have j: "j < length xs" using Cons.prems(2) Suc by simp
    have mem: "xs ! j \<in> set xs" using j by simp
    have nx: "fst x \<notin> fst ` set xs" using Cons.prems(1) by simp
    have ne: "fst (xs ! j) \<noteq> fst x" using mem nx by (metis imageI)
    have "AList.delete (fst (xs ! j)) xs = take j xs @ drop (Suc j) xs"
      using Cons.IH [of j] Cons.prems(1) j by simp
    then show ?thesis using Suc ne by (cases x) auto
  qed
qed

lemma getItem_nth:
  "distinct (map fst ls) \<Longrightarrow> i < length ls \<Longrightarrow> getItem ls (fst (ls ! i)) = Some (snd (ls ! i))"
  by (simp add: getItem_def)

lemma sweep_step_store:
  assumes "distinct (map fst (localStorage s))" and "i < length (localStorage s)"
  shows "localStorage (sweep_step pf i s) =
     (if swept pf (now s) (localStorage s ! i)
      then take i (localStorage s) @ drop (Suc i) (localStorage s)
      else localStorage s)"
  using assms
  by (simp add: sweep_step_def key_at_def swept_def getItem_nth removeItem_def delete_nth)

lemma sweep_step_now: "now (sweep_step pf i s) = now s"
  by (simp add: sweep_step_def split: option.splits)

lemma sweep_from_store:
  "i \<le> length (localStorage s) \<Longrightarrow> distinct (map fst (localStorage s)) \<Longrightarrow>
   localStorage (sweep_from pf i s) =
     filter (\<lambda>e. \<not> swept pf (now s) e) (take i (localStorage s)) @ drop i (localStorage s)"
proof (induction i arbitrary: s)
  case 0
  then show ?case by simp
next
  case (Suc i)
  let ?ls = "localStorage s"
  let ?s' = "sweep_step pf i s"
  have i: "i < length ?ls" using Suc.prems(1) by simp
  have st: "localStorage ?s' = (if swept pf (now s) (?ls ! i) then take i ?ls @ drop (Suc i) ?ls else ?ls)"
    using sweep_step_store [OF Suc.prems(2) i] .
  have len: "i \<le> length (localStorage ?s')" using i st by (auto simp: min_def)
  have "distinct (map fst (take i ?ls @ drop (Suc i) ?ls))"
  proof -
    have "distinct (map fst (take i ?ls @ (?ls ! i) # drop (Suc i) ?ls))"
      using Suc.prems(2) i by (simp add: Cons_nth_drop_Suc)
    then show ?thesis by auto
  qed
  then have dist: "distinct (map fst (localStorage ?s'))" using st Suc.prems(2) by simp
  have ih: "localStorage (sweep_from pf i ?s') =
      filter (\<lambda>e. \<not> swept pf (now ?s') e) (take i (localStorage ?s')) @ drop i (localStorage ?s')"
    using Suc.IH [OF len dist] .
  have tk: "take i (localStorage ?s') = take i ?ls" using st i by simp
  have dr: "drop i (localStorage ?s') =
      (if swept pf (now s) (?ls ! i) then drop (Suc i) ?ls else (?ls ! i) # drop (Suc i) ?ls)"
    using st i by (simp add: Cons_nth_drop_Suc)
  show ?case
    using ih tk dr i by (simp add: sweep_step_now take_Suc_conv_app_nth)
qed

lemma sweep_store:
  "distinct (map fst (localStorage s)) \<Longrightarrow>
   localStorage (sweep pf s) = filter (\<lambda>e. \<not> swept pf (now s) e) (localStorage s)"
  by (simp add: sweep_def sweep_from_store)

lemma sweep_from_now: "now (sweep_from pf i s) = now s"
  by (induction i arbitrary: s) (simp_all add: sweep_step_now)

lemma sweep_now: "now (sweep pf s) = now s"
  by (simp add: sweep_def sweep_from_now)

lemma map_of_filter_None:
  "(\<And>v. (k, v) \<in> set xs \<Longrightarrow> \<not> P (k, v)) \<Longrightarrow> map_of (filter P xs) k = None"
  by (induction xs) auto

lemma swept_lock_key:
  "swept pf t (lock_key k, v) = expired_record pf t v"
  by (simp add: swept_def lock_key_def startsWith_def)

lemma sweep_removes_expired:
  assumes d: "distinct (map fst (localStorage s))"
    and g: "getItem (localStorage s) (lock_key k) = Some v"
    and e: "expired_record pf (now s) v"
  shows "getItem (localStorage (sweep pf s)) (lock_key k) = None"
proof -
  have "\<And>v'. (lock_key k, v') \<in> set (localStorage s) \<Longrightarrow> v' = v"
    using d g by (simp add: getItem_def)
  then have "\<And>v'. (lock_key k, v') \<in> set (localStorage s) \<Longrightarrow>
       \<not> (\<lambda>e. \<not> swept pf (now s) e) (lock_key k, v')"
    using e by (auto simp: swept_lock_key)
  then have "map_of (filter (\<lambda>e. \<not> swept pf (now s) e) (localStorage s)) (lock_key k) = None"
    by (rule map_of_filter_None)
  then show ?thesis using d by (simp add: sweep_store getItem_def)
qed

section \<open>Locker.block\<close>

lemma block_free:
  "getItem (localStorage s) (lock_key k) = None \<Longrightarrow> 0 < t \<Longrightarrow>
   state_of (snd (block pf k t s)) (fst (block pf k t s)) = Fulfilled (VNum 0)
   \<and> localStorage (snd (block pf k t s)) = setItem (localStorage s) (lock_key k) (JSON_stringify pf t (now s))"
  by (simp add: block_def isLocked_def setIsLocked_def new_promise_def state_of_def)

lemma block_held:
  "getItem (localStorage s) (lock_key k) = Some v \<Longrightarrow>
   state_of (snd (block pf k t s)) (fst (block pf k t s)) = Pending
   \<and> localStorage (snd (block pf k t s)) = localStorage s"
  by (simp add: block_def isLocked_def new_promise_def state_of_def Let_def nth_append)

text \<open>
  C4.  \<open>block\<close> tests only whether a record is stored under the key: with a record
  there, stale or not, it writes nothing and its promise stays pending.  A record whose
  \<open>timestamp + timeout\<close> has passed is removed by the loop that runs when the module is
  loaded; the \<open>block\<close> call that follows the loop, with a positive budget, writes a fresh
  record (the budget and the current time) and is fulfilled with 0 at once, whether or not
  the holder ever called \<open>release\<close>.
\<close>

theorem sweep_then_block_acquires:
  assumes "distinct (map fst (localStorage s))"
    and "getItem (localStorage s) (lock_key k) = Some v"
    and "expired_record pf (now s) v"
    and "0 < t"
  shows "state_of (snd (block pf k t (sweep pf s))) (fst (block pf k t (sweep pf s))) = Fulfilled (VNum 0)
     \<and> getItem (localStorage (snd (block pf k t (sweep pf s)))) (lock_key k)
         = Some (JSON_stringify pf t (now s))
     \<and> state_of (snd (block pf k t s)) (fst (block pf k t s)) = Pending
     \<and> localStorage (snd (block pf k t s)) = localStorage s"
proof -
  have free: "getItem (localStorage (sweep pf s)) (lock_key k) = None"
    using sweep_removes_expired [OF assms(1,2,3)] .
  show ?thesis
    using block_free [OF free assms(4), of pf] block_held [OF assms(2), of pf t]
    by (simp add: getItem_setItem sweep_now)
qed

theorem sweep_then_block_acquires_witness:
  "distinct (map fst (localStorage
       (init [(''accessToken'', tokenA1), (lock_key ''refresh-token'', lockRecord)] 1700001000000)))
   \<and> getItem (localStorage
       (init [(''accessToken'', tokenA1), (lock_key ''refresh-token'', lockRecord)] 1700001000000))
       (lock_key ''refresh-token'') = Some lockRecord
   \<and> expired_record example_platform 1700001000000 lockRecord
   \<and> state_of
        (snd (block example_platform ''refresh-token'' 10000 (sweep example_platform
          (init [(''accessToken'', tokenA1), (lock_key ''refresh-token'', lockRecord)] 1700001000000))))
        (fst (block example_platform ''refresh-token'' 10000 (sweep example_platform
          (init [(''accessToken'', tokenA1), (lock_key ''refresh-token'', lockRecord)] 1700001000000))))
       = Fulfilled (VNum 0)
   \<and> getItem (localStorage
        (snd (block example_platform ''refresh-token'' 10000 (sweep example_platform
          (init [(''accessToken'', tokenA1), (lock_key ''refresh-token'', lockRecord)] 1700001000000)))))
        (lock_key ''refresh-token'')
       = Some (JSON_stringify example_platform 10000 1700001000000)"
proof -
  let ?s = "init [(''accessToken'', tokenA1), (lock_key ''refresh-token'', lockRecord)] 1700001000000"
  have d: "distinct (map fst (localStorage ?s))"
    by (simp add: init_def lock_key_def)
  have g: "getItem (localStorage ?s) (lock_key ''refresh-token'') = Some lockRecord"
    by (simp add: init_def lock_key_def getItem_def)
  have n: "now ?s = 1700001000000"
    by (simp add: init_def)
  have e: "expired_record example_platform (now ?s) lockRecord"
    unfolding n by (simp add: expired_record_def example_platform_def lockRecord_def)
  have p: "(0::int) < 10000" by simp
  show ?thesis
    using sweep_then_block_acquires [OF d g e p] d g e n by simp
qed

text \<open>A record written at 1699999000000 with a timeout of 10000 is stale at
  1700001000000; \<open>block\<close> called then, with no module load in between, stays pending once
  the microtasks have run, and the store still holds the stale record.\<close>

theorem stale_record_still_blocks:
  "expired_record example_platform (now (init [(lock_key ''refresh-token'', lockRecord)] 1700001000000)) lockRecord
   \<and> state_of (drain example_platform 5 (snd (block example_platform ''refresh-token'' 10000
              (init [(lock_key ''refresh-token'', lockRecord)] 1700001000000))))
        (fst (block example_platform ''refresh-token'' 10000
              (init [(lock_key ''refresh-token'', lockRecord)] 1700001000000))) = Pending
   \<and> microtasks (drain example_platform 5 (snd (block example_platform ''refresh-token'' 10000
              (init [(lock_key ''refresh-token'', lockRecord)] 1700001000000)))) = []
   \<and> localStorage (drain example_platform 5 (snd (block example_platform ''refresh-token'' 10000
              (init [(lock_key ''refresh-token'', lockRecord)] 1700001000000))))
       = [(lock_key ''refresh-token'', lockRecord)]"
  by (simp add: expired_record_def eval_defs numeral_nat)

text \<open>
  C3.  For every lock name \<open>k\<close>, the record is stored under \<open>__locker__.k\<close>, and the
  listener of a waiting \<open>block\<close> call compares \<open>e.key\<close> with the fixed string
  \<open>token-locked\<close>.  So when another tab removes the record of the lock, the waiting call
  is not resolved: its promise is still pending after the removal although the store no
  longer holds a record, and it is fulfilled with 2 when the timer fires.
\<close>

theorem own_key_removal_not_heard:
  "state_of (run pf [Microtask, OtherRemove (lock_key k), Microtask]
              (snd (block pf k 10000 (init [(lock_key k, v)] t0))))
            (fst (block pf k 10000 (init [(lock_key k, v)] t0))) = Pending
   \<and> localStorage (run pf [Microtask, OtherRemove (lock_key k), Microtask]
              (snd (block pf k 10000 (init [(lock_key k, v)] t0)))) = []
   \<and> microtasks (run pf [Microtask, OtherRemove (lock_key k), Microtask]
              (snd (block pf k 10000 (init [(lock_key k, v)] t0)))) = []
   \<and> state_of (run pf [Microtask, OtherRemove (lock_key k), Microtask, Advance 10000, TimerFires 0, Microtask]
              (snd (block pf k 10000 (init [(lock_key k, v)] t0))))
            (fst (block pf k 10000 (init [(lock_key k, v)] t0))) = Fulfilled (VNum 2)"
  by (simp add: eval_defs)

lemma onStorage_ignores_lock_key: "onStorage (lock_key k) nv w s = s"
  by (simp add: onStorage_def lock_key_def)

section \<open>The frame of a waiting block call\<close>

lemma settle_store: "localStorage (settle p out s) = localStorage s"
  by (simp add: settle_def)

lemma await_on_store: "localStorage (await_on p k s) = localStorage s"
  by (simp add: await_on_def split: outcome.splits)

lemma onStorage_store: "localStorage (onStorage ekey nv w s) = localStorage s"
  by (simp add: onStorage_def settle_store cleanup_def)

lemma onTimeout_store: "localStorage (onTimeout w s) = localStorage s"
  by (simp add: onTimeout_def settle_store cleanup_def)

lemma fold_onStorage_store: "localStorage (fold (onStorage ekey nv) ws s) = localStorage s"
  by (induction ws arbitrary: s) (simp_all add: onStorage_store)

lemma deliver_store: "localStorage (deliver ekey nv s) = localStorage s"
  by (simp add: deliver_def fold_onStorage_store)

lemma lock_only_settle: "lock_only s \<Longrightarrow> lock_only (settle p out s)"
  by (auto simp: lock_only_def settle_def list_all_iff)

lemma lock_only_await: "lock_only s \<Longrightarrow> passes_on k \<Longrightarrow> lock_only (await_on p k s)"
  by (auto simp: lock_only_def await_on_def list_all_iff split: outcome.splits)

lemma lock_only_cleanup: "lock_only (cleanup w s) = lock_only s"
  by (simp add: lock_only_def cleanup_def)

lemma lock_only_onStorage: "lock_only s \<Longrightarrow> lock_only (onStorage ekey nv w s)"
  by (simp add: onStorage_def lock_only_settle lock_only_cleanup)

lemma lock_only_onTimeout: "lock_only s \<Longrightarrow> lock_only (onTimeout w s)"
  by (simp add: onTimeout_def lock_only_settle lock_only_cleanup)

lemma lock_only_fold: "lock_only s \<Longrightarrow> lock_only (fold (onStorage ekey nv) ws s)"
  by (induction ws arbitrary: s) (simp_all add: lock_only_onStorage)

lemma lock_only_deliver: "lock_only s \<Longrightarrow> lock_only (deliver ekey nv s)"
  by (simp add: deliver_def lock_only_fold)

lemma lock_only_store_update: "lock_only (s\<lparr>localStorage := ls\<rparr>) = lock_only s"
  by (simp add: lock_only_def)

lemma lock_only_microtask:
  assumes "lock_only s"
  shows "lock_only (microtask pf s) \<and> localStorage (microtask pf s) = localStorage s"
proof (cases "microtasks s")
  case Nil
  then show ?thesis using assms by (simp add: microtask_def)
next
  case (Cons j js)
  have rest: "lock_only (s\<lparr>microtasks := js\<rparr>)"
    using assms Cons by (simp add: lock_only_def)
  have j: "job_passes_on j" using assms Cons by (simp add: lock_only_def)
  show ?thesis
  proof (cases j)
    case (ResolveThenable src dst)
    then show ?thesis
      using Cons rest by (simp add: microtask_def run_job_def lock_only_await await_on_store)
  next
    case (Resume k out)
    then obtain dst where k: "k = Adopt dst" using j by (cases k) simp_all
    show ?thesis
      using Cons rest Resume k by (simp add: microtask_def run_job_def lock_only_settle settle_store)
  qed
qed

lemma lock_only_step:
  assumes "lock_only s"
  shows "lock_only (step pf ev s) \<and> localStorage (step pf ev s) = others_write (localStorage s) ev"
proof (cases ev)
  case (OtherSet k v)
  then show ?thesis
    using assms by (simp add: step_def lock_only_deliver deliver_store lock_only_store_update)
next
  case (OtherRemove k)
  then show ?thesis
    using assms by (simp add: step_def lock_only_deliver deliver_store lock_only_store_update)
next
  case (TimerFires p)
  then show ?thesis
    using assms by (simp add: step_def lock_only_onTimeout onTimeout_store split: list.splits)
next
  case (Settles p out)
  then show ?thesis
    using assms by (simp add: step_def lock_only_settle settle_store)
next
  case (Advance d)
  then show ?thesis using assms by (simp add: step_def lock_only_def)
next
  case Microtask
  then show ?thesis using lock_only_microtask [OF assms] by (simp add: step_def)
qed

lemma lock_only_run:
  "lock_only s \<Longrightarrow> localStorage (run pf evs s) = foldl others_write (localStorage s) evs"
proof (induction evs arbitrary: s)
  case Nil
  then show ?case by simp
next
  case (Cons ev evs)
  then show ?case using lock_only_step [of s pf ev] by simp
qed

lemma lock_only_block:
  "isLocked k s \<Longrightarrow> lock_only s \<Longrightarrow>
   lock_only (snd (block pf k t s)) \<and> localStorage (snd (block pf k t s)) = localStorage s"
  by (simp add: block_def new_promise_def lock_only_def Let_def)

text \<open>
  C10.  A \<open>block\<close> call that finds the lock held writes nothing to the store, and nothing
  it has set up (its timer, its listener, the promises it chains) writes to the store
  later: in a tab where no function of token.ts is suspended, after any run of events in
  which the call ends with the result 2, the store is what the other tabs made of it.
  What the caller of \<open>block\<close> does after it has got the result 2 is its own business
  (\<open>Token.refresh\<close> goes on and calls \<open>release\<close>).
\<close>

theorem timed_out_block_leaves_store:
  assumes "isLocked k s" and "lock_only s"
    and "state_of (run pf evs (snd (block pf k t s))) (fst (block pf k t s)) = Fulfilled (VNum 2)"
  shows "localStorage (snd (block pf k t s)) = localStorage s
     \<and> localStorage (run pf evs (snd (block pf k t s))) = foldl others_write (localStorage s) evs"
  using lock_only_block [OF assms(1,2), of pf t] lock_only_run [of "snd (block pf k t s)" pf evs]
  by simp

theorem timed_out_block_leaves_store_witness:
  "isLocked ''refresh-token'' (init [(lock_key ''refresh-token'', lockRecord)] 1699999001000)
   \<and> lock_only (init [(lock_key ''refresh-token'', lockRecord)] 1699999001000)
   \<and> state_of (run example_platform
                 [Microtask, OtherSet ''accessToken'' tokenA2, Advance 10000, TimerFires 0, Microtask]
                 (snd (block example_platform ''refresh-token'' 10000
                        (init [(lock_key ''refresh-token'', lockRecord)] 1699999001000))))
        (fst (block example_platform ''refresh-token'' 10000
                        (init [(lock_key ''refresh-token'', lockRecord)] 1699999001000)))
       = Fulfilled (VNum 2)
   \<and> localStorage (run example_platform
                 [Microtask, OtherSet ''accessToken'' tokenA2, Advance 10000, TimerFires 0, Microtask]
                 (snd (block example_platform ''refresh-token'' 10000
                        (init [(lock_key ''refresh-token'', lockRecord)] 1699999001000))))
       = [(lock_key ''refresh-token'', lockRecord), (''accessToken'', tokenA2)]"
proof -
  let ?s = "init [(lock_key ''refresh-token'', lockRecord)] 1699999001000"
  let ?evs = "[Microtask, OtherSet ''accessToken'' tokenA2, Advance 10000, TimerFires 0, Microtask]"
  have l: "isLocked ''refresh-token'' ?s" by (simp add: isLocked_def init_def getItem_def)
  have o: "lock_only ?s" by (simp add: lock_only_def init_def)
  have t: "state_of (run example_platform ?evs (snd (block example_platform ''refresh-token'' 10000 ?s)))
        (fst (block example_platform ''refresh-token'' 10000 ?s)) = Fulfilled (VNum 2)"
    by (simp add: eval_defs)
  have w: "foldl others_write (localStorage ?s) ?evs
       = [(lock_key ''refresh-token'', lockRecord), (''accessToken'', tokenA2)]"
    by (simp add: init_def store_defs lock_key_def)
  show ?thesis
    using timed_out_block_leaves_store [OF l o t] l o t w by simp
qed


section \<open>Token.refresh and Token.read\<close>

subsection \<open>The two paths of Token.refresh\<close>

text \<open>The call that starts a renewal returns a promise that is fulfilled with
  \<open>undefined\<close> already; a call that finds a stored promise calls nothing, writes nothing
  and subscribes its own promise to the stored one.\<close>

lemma first_refresh_call_undefined:
  "config s = Some cfg \<Longrightarrow> refreshPromise s = None \<Longrightarrow>
   state_of (snd (Token_refresh pf s)) (fst (Token_refresh pf s)) = Fulfilled VUndefined"
  by (simp add: Token_refresh_def new_promise_def state_of_def split_def Let_def)

lemma joined_refresh_calls_nothing:
  "config s = Some cfg \<Longrightarrow> refreshPromise s = Some p \<Longrightarrow>
   refreshCalls (snd (Token_refresh pf s)) = refreshCalls s
   \<and> localStorage (snd (Token_refresh pf s)) = localStorage s
   \<and> microtasks (snd (Token_refresh pf s))
       = microtasks s @ [ResolveThenable p (fst (Token_refresh pf s))]"
  by (simp add: Token_refresh_def new_promise_def Let_def)

text \<open>When \<open>Token.read\<close> finds an expired token and no stored promise, the promise it
  awaits is already fulfilled, so its continuation is queued during the call itself.\<close>

lemma read_resumes_at_once:
  assumes c: "config s = Some cfg"
    and n: "refreshPromise s = None"
    and d: "ld_accessTokenDecoded (fst (load pf s)) = Some d"
    and e: "isExpired_exp pf (payload d) (timeSkew cfg) (snd (load pf s)) = (Inr True, s2)"
  shows "Resume (ReadAfterRefresh (fst (Token_read pf s))) (Fulfilled VUndefined)
           \<in> set (microtasks (snd (Token_read pf s)))"
proof -
  have c2: "config s2 = Some cfg"
    using e c by (auto simp: isExpired_exp_def isExpired_def load_def Let_def split: json.splits if_splits)
  have n2: "refreshPromise s2 = None"
    using rp_isExpired [of pf "payload d" "timeSkew cfg" "snd (load pf s)"] e n
    by (simp add: rp_basic)
  obtain pc s3 where r: "Token_refresh pf s2 = (pc, s3)" by (cases "Token_refresh pf s2")
  have f: "state_of s3 pc = Fulfilled VUndefined"
    using first_refresh_call_undefined [OF c2 n2, of pf] r by simp
  have pc: "pc < length (promises s3)"
    using f by (auto simp: state_of_def split: if_splits)
  have "state_of (snd (new_promise Pending s3)) pc = Fulfilled VUndefined"
    using f pc by (simp add: state_of_def new_promise_def nth_append)
  then show ?thesis
    using c d e r
    by (simp add: Token_read_def split_def Let_def await_on_def new_promise_def)
qed

subsection \<open>Worked runs\<close>

text \<open>
  In the runs below the tab is \<open>expired_tab\<close>: configured, with the expired \<open>tokenA1\<close>
  and the refresh token \<open>R1\<close> in the store, and the lock free.  The promises are numbered
  as they are made: 0 is the promise of \<open>lock.block\<close>, 1 the promise of the anonymous
  function (the one stored in \<open>refreshPromise\<close>), 2 the promise returned by the first call
  of \<open>Token.refresh\<close>.

  C2.  \<open>Token.read\<close> on the expired token calls \<open>Token.refresh\<close>, whose first call returns a
  promise that is already fulfilled with \<open>undefined\<close>; \<open>read\<close> (promise 3) therefore goes
  on after one microtask and returns the token it finds in the store, the expired
  \<open>tokenA1\<close>.  With the refresh function still pending, \<open>read\<close> is fulfilled while the
  renewal (promise 1) is pending.  With a refresh function that rejects, the renewal is
  rejected and \<open>read\<close> is fulfilled with \<open>tokenA1\<close> all the same.
\<close>

theorem read_does_not_wait_for_renewal:
  "fst (Token_read example_platform (expired_tab (Returns Pending))) = 3
   \<and> (let s = drain example_platform 6 (snd (Token_read example_platform (expired_tab (Returns Pending))))
        in microtasks s = [] \<and> refreshPromise s = Some 1 \<and> refreshCalls s = [''R1'']
           \<and> state_of s 1 = Pending
           \<and> state_of s 3 = Fulfilled (VStr tokenA1))
   \<and> fst (Token_read example_platform (expired_tab (Returns (Rejected (AppError ''401''))))) = 3
   \<and> (let s = drain example_platform 6
                 (snd (Token_read example_platform (expired_tab (Returns (Rejected (AppError ''401''))))))
        in microtasks s = [] \<and> state_of s 1 = Rejected (AppError ''401'')
           \<and> state_of s 3 = Fulfilled (VStr tokenA1))"
  by (simp add: run_defs cong: let_weak_cong)

text \<open>
  C5.  Two calls of \<open>Token.refresh\<close> in a row, before any microtask runs.  The refresh
  function is called once, with \<open>R1\<close>.  The first call (promise 2) is fulfilled with
  \<open>undefined\<close>; the second (promise 3) takes the outcome of the renewal: the new tokens
  when the refresh function resolves, its error when it rejects.
\<close>

theorem concurrent_refresh_outcomes_differ:
  "fst (Token_refresh example_platform (expired_tab (Returns (Fulfilled (VTokens newTokens))))) = 2
   \<and> fst (Token_refresh example_platform
         (snd (Token_refresh example_platform (expired_tab (Returns (Fulfilled (VTokens newTokens))))))) = 3
   \<and> (let s = drain example_platform 8 (snd (Token_refresh example_platform
                 (snd (Token_refresh example_platform
                        (expired_tab (Returns (Fulfilled (VTokens newTokens))))))))
        in microtasks s = [] \<and> refreshCalls s = [''R1'']
           \<and> state_of s 2 = Fulfilled VUndefined
           \<and> state_of s 3 = Fulfilled (VTokens newTokens))
   \<and> (let s = drain example_platform 8 (snd (Token_refresh example_platform
                 (snd (Token_refresh example_platform
                        (expired_tab (Returns (Rejected (AppError ''401''))))))))
        in microtasks s = [] \<and> refreshCalls s = [''R1'']
           \<and> state_of s 2 = Fulfilled VUndefined
           \<and> state_of s 3 = Rejected (AppError ''401''))"
  by (simp add: run_defs cong: let_weak_cong)

text \<open>
  C6.  A refresh function that rejects with the error \<open>401\<close>.  When \<open>Token.refresh\<close>
  returns, its promise (2) is already fulfilled with \<open>undefined\<close>, while the renewal is
  pending and the lock is held.  After the microtasks have run, the renewal (promise 1)
  is rejected with \<open>401\<close>, both tokens are gone and the lock is released, and the promise
  of the call is still fulfilled with \<open>undefined\<close>: the error has not reached the caller.
\<close>

theorem refresh_failure_not_raised_to_caller:
  "fst (Token_refresh example_platform (expired_tab (Returns (Rejected (AppError ''401''))))) = 2
   \<and> (let s = snd (Token_refresh example_platform (expired_tab (Returns (Rejected (AppError ''401'')))))
        in refreshPromise s = Some 1 \<and> state_of s 1 = Pending
           \<and> state_of s 2 = Fulfilled VUndefined \<and> isLocked ''refresh-token'' s)
   \<and> (let s = drain example_platform 6
                 (snd (Token_refresh example_platform (expired_tab (Returns (Rejected (AppError ''401''))))))
        in microtasks s = [] \<and> state_of s 1 = Rejected (AppError ''401'')
           \<and> state_of s 2 = Fulfilled VUndefined
           \<and> stored_access s = [] \<and> \<not> isLocked ''refresh-token'' s)"
  by (simp add: run_defs cong: let_weak_cong)

text \<open>
  C1.  A renewal that succeeds and settles: the refresh function was called once,
  nothing is queued or waiting, and \<open>refreshPromise\<close> still holds promise 1.  4000 seconds
  later \<open>tokenA2\<close> has expired too; \<open>Token.refresh\<close> is called again (promise 4).  The
  refresh function is not called a second time, the call is fulfilled with the outcome
  of the first renewal, and the store still holds the expired \<open>tokenA2\<close>.
\<close>

theorem settled_refresh_is_reused:
  "(let s = drain example_platform 6
              (snd (Token_refresh example_platform (expired_tab (Returns (Fulfilled (VTokens newTokens))))))
    in microtasks s = [] \<and> reactions s = [] \<and> refreshCalls s = [''R1'']
       \<and> state_of s 1 = Fulfilled (VTokens newTokens) \<and> refreshPromise s = Some 1
       \<and> fst (Token_refresh example_platform (step example_platform (Advance 4000000) s)) = 4)
   \<and> (let s = drain example_platform 6
              (snd (Token_refresh example_platform
                (step example_platform (Advance 4000000)
                  (drain example_platform 6
                    (snd (Token_refresh example_platform
                      (expired_tab (Returns (Fulfilled (VTokens newTokens))))))))))
    in microtasks s = [] \<and> refreshCalls s = [''R1''] \<and> refreshPromise s = Some 1
       \<and> state_of s 4 = Fulfilled (VTokens newTokens)
       \<and> stored_access s = tokenA2
       \<and> fst (isLoggedIn example_platform s) = Inr False)"
  by (simp add: run_defs cong: let_weak_cong)

end
